theory Spec2Isabelle
  imports Main
begin

section \<open>Data model of nsh (src/main.c, lines 27-49)\<close>

text \<open>
  A \<open>char*\<close> slot of an array or of a struct field. \<open>Null\<close> is the null pointer,
  \<open>Ptr s\<close> points to the NUL-terminated string \<open>s\<close> (a token inside the input line),
  and \<open>Wild\<close> is any other bit pattern, as found in memory that \<open>malloc\<close> returned and
  nobody has written yet.
\<close>

datatype cell = Wild | Null | Ptr string

record Command =
  num_args :: int
  args :: "cell list"

record FullCommand =
  num_cmds :: int
  cmds :: "Command list"
  file_out :: cell
  file_in :: cell
  overwrite :: int

text \<open>
  What the C program stops with instead of returning: a call of \<open>exit\<close>, or one of the
  undefined behaviours of C that the code can reach (an access outside an allocated
  array, \<open>strcmp\<close>/\<open>open\<close> on a pointer that is null or wild, the use of a variable that
  was never assigned).
\<close>

datatype abort = Exit int | Out_of_bounds | Bad_pointer | Uninitialised

definition EXIT_FAILURE :: int where
  "EXIT_FAILURE = 1"

text \<open>
  The contents of freshly allocated memory. \<open>malloc\<close> does not initialise what it returns,
  so every field of the new \<open>FullCommand\<close>, of its 16 \<open>Command\<close>s, of their 101-slot
  \<open>args\<close> arrays and of the 128-slot \<open>toks\<close> array starts with an arbitrary value, given
  here. \<open>h_toks_ok\<close> says whether the allocation of \<open>toks\<close> succeeds, the only allocation
  the code tests (line 170); the others are taken to succeed.
\<close>

record heap =
  h_num_cmds :: int
  h_num_args :: "nat \<Rightarrow> int"
  h_args :: "nat \<Rightarrow> nat \<Rightarrow> cell"
  h_file_out :: cell
  h_file_in :: cell
  h_overwrite :: int
  h_toks :: "nat \<Rightarrow> cell"
  h_toks_ok :: bool

definition TKS_BUFFER_SIZE :: nat where
  "TKS_BUFFER_SIZE = 128"

definition malloc_Command :: "heap \<Rightarrow> nat \<Rightarrow> Command" where
  "malloc_Command h x = \<lparr>num_args = h_num_args h x, args = map (h_args h x) [0..<101]\<rparr>"

definition malloc_FullCommand :: "heap \<Rightarrow> FullCommand" where
  "malloc_FullCommand h =
     \<lparr>num_cmds = h_num_cmds h, cmds = map (malloc_Command h) [0..<16],
      file_out = h_file_out h, file_in = h_file_in h, overwrite = h_overwrite h\<rparr>"

definition malloc_toks :: "heap \<Rightarrow> cell list" where
  "malloc_toks h = map (h_toks h) [0..<TKS_BUFFER_SIZE]"

section \<open>Tokenizer: the calls of strtok (lines 175 and 211)\<close>

text \<open>
  \<open>strtok(line, " ")\<close> skips the delimiters in front, returns NULL at the end of the
  string, and otherwise returns the characters up to the next delimiter, which it
  overwrites with NUL; the next call resumes one character after it. \<open>strtok_all\<close> is the
  list of the tokens that the loop of \<open>cmd_builder\<close> sees, in order. The only delimiter is
  the space character. A line is the contents of a C string, without NUL characters.
\<close>

function strtok_all :: "string \<Rightarrow> string list" where
  "strtok_all s =
     (let s1 = dropWhile (\<lambda>c. c = CHR '' '') s
      in if s1 = [] then []
         else takeWhile (\<lambda>c. c \<noteq> CHR '' '') s1
              # strtok_all (drop 1 (dropWhile (\<lambda>c. c \<noteq> CHR '' '') s1)))"
  by pat_completeness auto
termination
proof (relation "measure length", goal_cases)
  case 1
  show ?case by simp
next
  case (2 s s1)
  have a: "length (dropWhile (\<lambda>c. c \<noteq> CHR '' '') s1) \<le> length s1"
    by (rule length_dropWhile_le)
  have b: "length s1 \<le> length s"
    unfolding 2(1) by (rule length_dropWhile_le)
  have c: "0 < length s1" using 2(2) by simp
  have "length (drop 1 (dropWhile (\<lambda>c. c \<noteq> CHR '' '') s1)) < length s"
    unfolding length_drop using a b c by linarith
  then show ?case by simp
qed

declare strtok_all.simps [simp del]

section \<open>The parser cmd_builder (lines 153-234)\<close>

text \<open>The local variables of \<open>cmd_builder\<close> that the loop changes, with the structure built.\<close>

record builder =
  fcmdp :: FullCommand
  toks :: "cell list"
  pos :: nat
  num_cmd :: nat
  offset :: nat
  loc_file_in :: cell
  loc_file_out :: cell

text \<open>\<open>fcmdp->cmds[c].args[i] = v\<close>; a write outside either array is undefined behaviour.\<close>

definition set_arg :: "nat \<Rightarrow> nat \<Rightarrow> cell \<Rightarrow> FullCommand \<Rightarrow> abort + FullCommand" where
  "set_arg c i v f =
     (if c < length (cmds f) \<and> i < length (args (cmds f ! c))
      then Inr (f\<lparr>cmds := (cmds f)[c := (cmds f ! c)\<lparr>args := (args (cmds f ! c))[i := v]\<rparr>]\<rparr>)
      else Inl Out_of_bounds)"

text \<open>\<open>fcmdp->cmds[c].num_args++\<close>.\<close>

definition incr_num_args :: "nat \<Rightarrow> FullCommand \<Rightarrow> abort + FullCommand" where
  "incr_num_args c f =
     (if c < length (cmds f)
      then Inr (f\<lparr>cmds := (cmds f)[c := (cmds f ! c)\<lparr>num_args := num_args (cmds f ! c) + 1\<rparr>]\<rparr>)
      else Inl Out_of_bounds)"

text \<open>
  \<open>pos > 0 && strcmp(toks[pos-1], x) == 0\<close>: the conjunction short-cuts at \<open>pos = 0\<close>;
  \<open>strcmp\<close> needs a pointer to a string.
\<close>

definition prev_is :: "builder \<Rightarrow> string \<Rightarrow> abort + bool" where
  "prev_is b x =
     (if pos b = 0 then Inr False
      else if length (toks b) \<le> pos b - 1 then Inl Out_of_bounds
      else (case toks b ! (pos b - 1) of Ptr s \<Rightarrow> Inr (s = x) | _ \<Rightarrow> Inl Bad_pointer))"

text \<open>
  The three redirection branches (lines 188-204) differ in the variable that receives the
  operand and in what they do to \<open>overwrite\<close>; each writes NULL at \<open>args[offset-1]\<close> and
  leaves \<open>offset\<close> alone.
\<close>

definition null_before :: "builder \<Rightarrow> FullCommand \<Rightarrow> abort + FullCommand" where
  "null_before b f =
     (if offset b = 0 then Inl Out_of_bounds else set_arg (num_cmd b) (offset b - 1) Null f)"

text \<open>The body of the while loop (lines 178-209) for the token \<open>tok\<close>.\<close>

definition loop_body :: "builder \<Rightarrow> string \<Rightarrow> abort + builder" where
  "loop_body b tok =
     (if length (toks b) \<le> pos b then Inl Out_of_bounds
      else
        let b1 = b\<lparr>toks := (toks b)[pos b := Ptr tok]\<rparr> in
        case set_arg (num_cmd b) (offset b) (Ptr tok) (fcmdp b) of
          Inl e \<Rightarrow> Inl e
        | Inr f1 \<Rightarrow>
            if tok = ''|'' then
              (case set_arg (num_cmd b) (offset b) Null f1 of
                 Inl e \<Rightarrow> Inl e
               | Inr f2 \<Rightarrow>
                   Inr (b1\<lparr>fcmdp := f2, offset := 0, num_cmd := num_cmd b + 1, pos := pos b + 1\<rparr>))
            else
              (case prev_is b1 ''>'' of
                 Inl e \<Rightarrow> Inl e
               | Inr True \<Rightarrow>
                   (case null_before b f1 of
                      Inl e \<Rightarrow> Inl e
                    | Inr f2 \<Rightarrow>
                        Inr (b1\<lparr>loc_file_out := Ptr tok, fcmdp := f2\<lparr>overwrite := 1\<rparr>,
                                 pos := pos b + 1\<rparr>))
               | Inr False \<Rightarrow>
                   (case prev_is b1 ''<'' of
                      Inl e \<Rightarrow> Inl e
                    | Inr True \<Rightarrow>
                        (case null_before b f1 of
                           Inl e \<Rightarrow> Inl e
                         | Inr f2 \<Rightarrow>
                             Inr (b1\<lparr>loc_file_in := Ptr tok, fcmdp := f2, pos := pos b + 1\<rparr>))
                    | Inr False \<Rightarrow>
                        (case prev_is b1 ''>>'' of
                           Inl e \<Rightarrow> Inl e
                         | Inr True \<Rightarrow>
                             (case null_before b f1 of
                                Inl e \<Rightarrow> Inl e
                              | Inr f2 \<Rightarrow>
                                  Inr (b1\<lparr>loc_file_out := Ptr tok, fcmdp := f2\<lparr>overwrite := 0\<rparr>,
                                           pos := pos b + 1\<rparr>))
                         | Inr False \<Rightarrow>
                             (case incr_num_args (num_cmd b) f1 of
                                Inl e \<Rightarrow> Inl e
                              | Inr f2 \<Rightarrow>
                                  Inr (b1\<lparr>pos := pos b + 1, offset := offset b + 1,
                                           fcmdp := f2\<rparr>))))))"

text \<open>The while loop over the tokens that \<open>strtok\<close> returns, until it returns NULL.\<close>

fun while_tok :: "builder \<Rightarrow> string list \<Rightarrow> abort + builder" where
  "while_tok b [] = Inr b"
| "while_tok b (tok # rest) =
     (case loop_body b tok of Inl e \<Rightarrow> Inl e | Inr b' \<Rightarrow> while_tok b' rest)"

text \<open>
  Lines 216-223: with the transcript active, one more command \<open>tee -a fname\<close> is written
  after the last one.
\<close>

definition add_tee :: "string \<Rightarrow> nat \<Rightarrow> FullCommand \<Rightarrow> abort + FullCommand" where
  "add_tee fname n f =
     (case set_arg n 0 (Ptr ''tee'') f of
        Inl e \<Rightarrow> Inl e
      | Inr f1 \<Rightarrow>
          (case set_arg n 1 (Ptr ''-a'') f1 of
             Inl e \<Rightarrow> Inl e
           | Inr f2 \<Rightarrow>
               (case set_arg n 2 (Ptr fname) f2 of
                  Inl e \<Rightarrow> Inl e
                | Inr f3 \<Rightarrow> set_arg n 3 Null f3)))"

text \<open>
  \<open>cmd_builder\<close>, with the two globals it reads (\<open>backup\<close>, \<open>fname\<close>), the memory that
  its allocations return, and the line.
\<close>

definition cmd_builder :: "int \<Rightarrow> string \<Rightarrow> heap \<Rightarrow> string \<Rightarrow> abort + FullCommand" where
  "cmd_builder backup fname h line =
     (if \<not> h_toks_ok h then Inl (Exit EXIT_FAILURE)
      else
        case while_tok \<lparr>fcmdp = malloc_FullCommand h, toks = malloc_toks h, pos = 0,
                        num_cmd = 0, offset = 0, loc_file_in = Null, loc_file_out = Null\<rparr>
                       (strtok_all line) of
          Inl e \<Rightarrow> Inl e
        | Inr b \<Rightarrow>
            (case set_arg (num_cmd b) (offset b) Null (fcmdp b) of
               Inl e \<Rightarrow> Inl e
             | Inr f1 \<Rightarrow>
                 (case (if backup \<noteq> 0
                        then map_sum id (Pair (num_cmd b + 1)) (add_tee fname (num_cmd b + 1) f1)
                        else Inr (num_cmd b, f1)) of
                    Inl e \<Rightarrow> Inl e
                  | Inr (n, f2) \<Rightarrow>
                      Inr (f2\<lparr>num_cmds := int n + 1, file_in := loc_file_in b,
                               file_out := loc_file_out b\<rparr>))))"

section \<open>The executor execute_cmd (lines 236-326)\<close>

text \<open>
  What a file descriptor refers to. The two \<open>Inherited\<close> ends are the standard input and
  output that the shell itself was started with; pipes are numbered in the order of
  their creation.
\<close>

datatype endpoint =
    Inherited_in
  | Inherited_out
  | File_read string
  | File_trunc string
  | File_append string
  | Pipe_read nat
  | Pipe_write nat

text \<open>
  The calls that reach the operating system, in the order the shell process makes them.
  A descriptor is given by what it refers to, \<open>None\<close> being the descriptor \<open>-1\<close> of a
  failed \<open>open\<close>. \<open>Sys_open e ok\<close> is the call of \<open>open\<close> for the file and mode of \<open>e\<close>
  and whether it succeeded; \<open>Sys_dup2 d n\<close> is \<open>dup2(d, n)\<close>; \<open>Sys_fork i in out argv\<close>
  is the \<open>fork\<close> of the child for command \<open>i\<close>, with the standard input and output the
  child inherits and the argument vector it passes to \<open>execvp\<close> (\<open>None\<close> when the array
  is not a NULL-terminated array of strings); \<open>Sys_waitpid i st\<close> waits for that child
  and receives its status \<open>st\<close>.
\<close>

datatype event =
    Sys_dup endpoint
  | Sys_open endpoint bool
  | Sys_pipe nat
  | Sys_dup2 "endpoint option" nat
  | Sys_close "endpoint option"
  | Sys_fork nat endpoint endpoint "string list option"
  | Sys_waitpid nat int
  | Perror
  | Prompt
  | Backup_write string
  | Free

text \<open>
  The environment: which files \<open>open\<close> can open for reading and for writing, the status
  with which the child of each command ends, and the memory that the allocations of
  \<open>cmd_builder\<close> return for the n-th line. \<open>dup\<close>, \<open>pipe\<close> and \<open>fork\<close> are taken to
  succeed; the code does not test them.
\<close>

record os =
  can_read :: "string \<Rightarrow> bool"
  can_write :: "string \<Rightarrow> bool"
  exit_status :: "nat \<Rightarrow> int"
  fresh_heap :: "nat \<Rightarrow> heap"

text \<open>The argument vector that \<open>execvp\<close> reads from an \<open>args\<close> array: up to the first NULL.\<close>

fun argv_of :: "cell list \<Rightarrow> string list option" where
  "argv_of [] = None"
| "argv_of (Wild # cs) = None"
| "argv_of (Null # cs) = Some []"
| "argv_of (Ptr s # cs) = map_option ((#) s) (argv_of cs)"

definition child_argv :: "FullCommand \<Rightarrow> nat \<Rightarrow> string list option" where
  "child_argv cmd i = (if i < length (cmds cmd) then argv_of (args (cmds cmd ! i)) else None)"

text \<open>
  The variables of \<open>execute_cmd\<close> that its loop changes: \<open>fd_in\<close>, what descriptors 0 and
  1 of the shell refer to, \<open>pid\<close> (not assigned before the first \<open>fork\<close>), and the number
  of pipes created so far.
\<close>

record exec_state =
  fd_in :: "endpoint option"
  fd0 :: endpoint
  fd1 :: endpoint
  pid :: "nat option"
  npipes :: nat

text \<open>\<open>dup2(d, n)\<close> makes descriptor \<open>n\<close> refer to what \<open>d\<close> does, and fails on \<open>-1\<close>.\<close>

definition dup2_to :: "endpoint option \<Rightarrow> endpoint \<Rightarrow> endpoint" where
  "dup2_to d cur = (case d of None \<Rightarrow> cur | Some e \<Rightarrow> e)"

text \<open>Lines 301-312: redirect the output, fork, and in the child call \<open>execvp\<close>.\<close>

definition spawn ::
  "FullCommand \<Rightarrow> nat \<Rightarrow> exec_state \<Rightarrow> endpoint option \<Rightarrow> endpoint option \<Rightarrow> nat
    \<Rightarrow> event list \<times> (abort + exec_state)" where
  "spawn cmd i st new_fd_in fd_out np =
     (let in0 = dup2_to (fd_in st) (fd0 st); out1 = dup2_to fd_out (fd1 st)
      in ([Sys_dup2 fd_out 1, Sys_close fd_out, Sys_fork i in0 out1 (child_argv cmd i)],
          Inr \<lparr>fd_in = new_fd_in, fd0 = in0, fd1 = out1, pid = Some i, npipes = np\<rparr>))"

text \<open>The body of the for loop (lines 268-312) for command \<open>i\<close>.\<close>

definition stage :: "os \<Rightarrow> FullCommand \<Rightarrow> nat \<Rightarrow> exec_state \<Rightarrow> event list \<times> (abort + exec_state)" where
  "stage env cmd i st =
     (let ev = [Sys_dup2 (fd_in st) 0, Sys_close (fd_in st)]
      in if int i = num_cmds cmd - 1 then
           (case file_out cmd of
              Wild \<Rightarrow> (ev, Inl Bad_pointer)
            | Ptr f \<Rightarrow>
                (let e = (if overwrite cmd \<noteq> 0 then File_trunc f else File_append f);
                     ok = can_write env f;
                     fd_out = (if ok then Some e else None)
                 in if fd_in st = None
                    then (ev @ [Sys_open e ok, Perror], Inl (Exit EXIT_FAILURE))
                    else (case spawn cmd i st (fd_in st) fd_out (npipes st) of
                            (ev', r) \<Rightarrow> (ev @ [Sys_open e ok] @ ev', r)))
            | Null \<Rightarrow>
                (case spawn cmd i st (fd_in st) (Some Inherited_out) (npipes st) of
                   (ev', r) \<Rightarrow> (ev @ [Sys_dup Inherited_out] @ ev', r)))
         else
           (case spawn cmd i st (Some (Pipe_read (npipes st))) (Some (Pipe_write (npipes st)))
                   (npipes st + 1) of
              (ev', r) \<Rightarrow> (ev @ [Sys_pipe (npipes st)] @ ev', r)))"

text \<open>The for loop \<open>for (int i = 0; i < num_cmds; i++)\<close>, over the indices it visits.\<close>

fun for_stages ::
  "os \<Rightarrow> FullCommand \<Rightarrow> nat list \<Rightarrow> exec_state \<Rightarrow> event list \<times> (abort + exec_state)" where
  "for_stages env cmd [] st = ([], Inr st)"
| "for_stages env cmd (i # is) st =
     (case stage env cmd i st of
        (ev, Inl e) \<Rightarrow> (ev, Inl e)
      | (ev, Inr st') \<Rightarrow> (case for_stages env cmd is st' of (ev', r) \<Rightarrow> (ev @ ev', r)))"

text \<open>
  Lines 261-325, once \<open>fd_in\<close> is set: the loop, the restoring of descriptors 0 and 1
  from the saved copies, and the wait unless \<open>bg_flag\<close> is set. The status that
  \<open>waitpid\<close> stores is not used; the function returns 1.
\<close>

definition run_pipeline ::
  "os \<Rightarrow> FullCommand \<Rightarrow> int \<Rightarrow> endpoint option \<Rightarrow> event list \<times> (abort + int)" where
  "run_pipeline env cmd bg_flag first_in =
     (case for_stages env cmd [0..<nat (num_cmds cmd)]
             \<lparr>fd_in = first_in, fd0 = Inherited_in, fd1 = Inherited_out, pid = None,
              npipes = 0\<rparr> of
        (ev, Inl e) \<Rightarrow> (ev, Inl e)
      | (ev, Inr st) \<Rightarrow>
          (let restore = [Sys_dup2 (Some Inherited_in) 0, Sys_dup2 (Some Inherited_out) 1,
                          Sys_close (Some Inherited_in), Sys_close (Some Inherited_out)]
           in if bg_flag = 0 then
                (case pid st of
                   None \<Rightarrow> (ev @ restore, Inl Uninitialised)
                 | Some p \<Rightarrow> (ev @ restore @ [Sys_waitpid p (exit_status env p)], Inr 1))
              else (ev @ restore, Inr 1)))"

text \<open>
  \<open>execute_cmd\<close>: the events it causes and what it returns. The first test reads
  \<open>cmd->cmds->args[0]\<close> and hands it to \<open>strcmp\<close>.
\<close>

definition execute_cmd :: "os \<Rightarrow> FullCommand \<Rightarrow> int \<Rightarrow> event list \<times> (abort + int)" where
  "execute_cmd env cmd bg_flag =
     (if cmds cmd = [] \<or> args (cmds cmd ! 0) = [] then ([], Inl Out_of_bounds)
      else
        case args (cmds cmd ! 0) ! 0 of
          Wild \<Rightarrow> ([], Inl Bad_pointer)
        | Null \<Rightarrow> ([], Inl Bad_pointer)
        | Ptr name \<Rightarrow>
            if name = ''quit'' then ([], Inr 0)
            else
              (let saved = [Sys_dup Inherited_in, Sys_dup Inherited_out]
               in case file_in cmd of
                    Wild \<Rightarrow> (saved, Inl Bad_pointer)
                  | Ptr f \<Rightarrow>
                      if can_read env f then
                        (case run_pipeline env cmd bg_flag (Some (File_read f)) of
                           (ev, r) \<Rightarrow> (saved @ [Sys_open (File_read f) True] @ ev, r))
                      else (saved @ [Sys_open (File_read f) False, Perror],
                            Inl (Exit EXIT_FAILURE))
                  | Null \<Rightarrow>
                      (case run_pipeline env cmd bg_flag (Some Inherited_in) of
                         (ev, r) \<Rightarrow> (saved @ [Sys_dup Inherited_in] @ ev, r))))"

section \<open>Reading a line and the command loop (lines 89-135)\<close>

text \<open>
  \<open>get_cmd\<close> with the global \<open>bg\<close> it may set. \<open>raw\<close> is what \<open>getline\<close> stored, the
  newline included, or \<open>None\<close> at the end of the input, where \<open>getline\<close> fails and the
  buffer holds nothing defined. The last character is cut off; if the line then ends in
  \<open>&\<close>, \<open>bg\<close> becomes 1 and that character is cut off too. On a line that is empty after
  the first cut the test reads \<open>line[-1]\<close>.
\<close>

definition get_cmd :: "int \<Rightarrow> string option \<Rightarrow> abort + int \<times> string" where
  "get_cmd bg raw =
     (case raw of
        None \<Rightarrow> Inl Uninitialised
      | Some r \<Rightarrow>
          if r = [] then Inl Out_of_bounds
          else
            (let line = butlast r
             in if line = [] then Inl Out_of_bounds
                else if last line = CHR ''&'' then Inr (1, butlast line)
                else Inr (bg, line)))"

text \<open>
  One pass of the do-while loop of \<open>loop\<close> on the raw line \<open>raw\<close>: the events, and either
  how the process stops or the status that \<open>execute_cmd\<close> returned with the new \<open>bg\<close>.
\<close>

definition loop_pass ::
  "os \<Rightarrow> int \<Rightarrow> string \<Rightarrow> nat \<Rightarrow> int \<Rightarrow> string option \<Rightarrow> event list \<times> (abort + int \<times> int)" where
  "loop_pass env backup fname n bg raw =
     (case get_cmd bg raw of
        Inl e \<Rightarrow> ([Prompt], Inl e)
      | Inr (bg1, line) \<Rightarrow>
          (let ev0 = Prompt # (if backup \<noteq> 0
                               then [Backup_write ''> '', Backup_write line, Backup_write [CHR 0x0A]]
                               else [])
           in case cmd_builder backup fname (fresh_heap env n) line of
                Inl e \<Rightarrow> (ev0, Inl e)
              | Inr cmd \<Rightarrow>
                  (case execute_cmd env cmd bg1 of
                     (ev1, Inl e) \<Rightarrow> (ev0 @ ev1, Inl e)
                   | (ev1, Inr status) \<Rightarrow> (ev0 @ ev1 @ [Free], Inr (status, bg1)))))"

text \<open>
  \<open>loop\<close> on the lines that the input still holds; \<open>n\<close> counts the passes. The result
  \<open>Inr ()\<close> is the return of \<open>loop\<close> to \<open>main\<close>. The return value of \<open>getline\<close> is not
  tested, so at the end of the input the pass goes on into \<open>get_cmd\<close> and stops there
  (the second branch of the first equation is never taken).
\<close>

fun loop :: "os \<Rightarrow> int \<Rightarrow> string \<Rightarrow> nat \<Rightarrow> int \<Rightarrow> string list \<Rightarrow> event list \<times> (abort + unit)" where
  "loop env backup fname n bg [] =
     (case loop_pass env backup fname n bg None of
        (ev, Inl e) \<Rightarrow> (ev, Inl e)
      | (ev, Inr r) \<Rightarrow> (ev, Inl Uninitialised))"
| "loop env backup fname n bg (raw # rest) =
     (case loop_pass env backup fname n bg (Some raw) of
        (ev, Inl e) \<Rightarrow> (ev, Inl e)
      | (ev, Inr (status, bg1)) \<Rightarrow>
          if status \<noteq> 0
          then (case loop env backup fname (n + 1) bg1 rest of (ev', r) \<Rightarrow> (ev @ ev', r))
          else (ev, Inr ()))"

section \<open>Vocabulary for the statements about the parser\<close>

text \<open>
  The functions below are not part of the program. They say, on the list of tokens of a
  line, what the parser is proved to compute, so that the theorems can be read without
  the arrays.
\<close>

text \<open>The three tokens that the branches of lines 188-204 look for in \<open>toks[pos-1]\<close>.\<close>

definition is_redir :: "string \<Rightarrow> bool" where
  "is_redir t = (t = ''>'' \<or> t = ''<'' \<or> t = ''>>'')"

definition is_out :: "string \<Rightarrow> bool" where
  "is_out t = (t = ''>'' \<or> t = ''>>'')"

text \<open>
  The tokens of a line cut at every \<open>|\<close>: one segment per stage, in order, the \<open>|\<close>
  tokens left out. A line with k of them has k + 1 segments, some possibly empty.
\<close>

fun segments :: "string list \<Rightarrow> string list list" where
  "segments [] = [[]]"
| "segments (t # ts) =
     (if t = ''|'' then [] # segments ts
      else (t # hd (segments ts)) # tl (segments ts))"

text \<open>
  Inside a segment, a token that follows a redirection token is that token's operand
  (it may be a redirection token itself, and then the next token is an operand too).
  \<open>has_operand\<close> says whether the segment has a redirection token with a token after
  it; \<open>stage_argv\<close> is the segment up to the first such redirection token, or the whole
  segment when there is none (a redirection token at the very end stays an argument).
\<close>

fun has_operand :: "string list \<Rightarrow> bool" where
  "has_operand (t # u # ts) = (is_redir t \<or> has_operand (u # ts))"
| "has_operand ts = False"

fun stage_argv :: "string list \<Rightarrow> string list" where
  "stage_argv (t # u # ts) = (if is_redir t then [] else t # stage_argv (u # ts))"
| "stage_argv ts = ts"

text \<open>
  The number of slots of \<open>args\<close> that a segment uses before the closing NULL, which is the
  final value of \<open>offset\<close>: every token counts except those that follow a redirection
  token (\<open>prev\<close> says whether the token before the segment's first one is one).
\<close>

fun slots_used :: "bool \<Rightarrow> string list \<Rightarrow> nat" where
  "slots_used prev [] = 0"
| "slots_used prev (t # ts) = (if prev then 0 else 1) + slots_used (is_redir t) ts"

text \<open>
  The last place in the line where a token satisfying \<open>P\<close> is followed by a token other
  than \<open>|\<close>: the operator found there and its operand. \<open>target\<close> turns the result into
  the pointer stored in \<open>file_in\<close> or \<open>file_out\<close>.
\<close>

fun last_operand :: "(string \<Rightarrow> bool) \<Rightarrow> string list \<Rightarrow> (string \<times> string) option" where
  "last_operand P (t # u # ts) =
     (case last_operand P (u # ts) of
        Some r \<Rightarrow> Some r
      | None \<Rightarrow> if P t \<and> u \<noteq> ''|'' then Some (t, u) else None)"
| "last_operand P ts = None"

definition target :: "(string \<times> string) option \<Rightarrow> cell" where
  "target r = (case r of None \<Rightarrow> Null | Some (opr, f) \<Rightarrow> Ptr f)"

text \<open>
  A line fits the arrays of \<open>cmd_builder\<close> when it has at most 128 tokens (\<open>toks\<close>), at
  most 16 commands, the \<open>tee\<close> of the transcript included (\<open>cmds\<close>), and in every segment
  at most 100 used slots, which leaves the 101st for the closing NULL (\<open>args\<close>).
\<close>

definition fits :: "int \<Rightarrow> string list \<Rightarrow> bool" where
  "fits backup p \<longleftrightarrow>
     length p \<le> 128 \<and>
     count_list p ''|'' + (if backup \<noteq> 0 then 1 else 0) \<le> 15 \<and>
     (\<forall>s \<in> set (segments p). slots_used False s \<le> 100)"

subsection \<open>Auxiliary notions for the proofs\<close>

text \<open>
  The shape that \<open>cmd_builder\<close> allocates, the array of one command, and the two updates
  of the structure that the loop performs, without their bounds tests.
\<close>

definition shaped :: "FullCommand \<Rightarrow> bool" where
  "shaped f \<longleftrightarrow> length (cmds f) = 16 \<and> (\<forall>c<16. length (args (cmds f ! c)) = 101)"

definition args_at :: "FullCommand \<Rightarrow> nat \<Rightarrow> cell list" where
  "args_at f c = args (cmds f ! c)"

definition put :: "nat \<Rightarrow> nat \<Rightarrow> cell \<Rightarrow> FullCommand \<Rightarrow> FullCommand" where
  "put c i v f = f\<lparr>cmds := (cmds f)[c := (cmds f ! c)\<lparr>args := (args (cmds f ! c))[i := v]\<rparr>]\<rparr>"

definition bump :: "nat \<Rightarrow> FullCommand \<Rightarrow> FullCommand" where
  "bump c f = f\<lparr>cmds := (cmds f)[c := (cmds f ! c)\<lparr>num_args := num_args (cmds f ! c) + 1\<rparr>]\<rparr>"

definition tee_put :: "string \<Rightarrow> nat \<Rightarrow> FullCommand \<Rightarrow> FullCommand" where
  "tee_put fname n f =
     put n 3 Null (put n 2 (Ptr fname) (put n 1 (Ptr ''-a'') (put n 0 (Ptr ''tee'') f)))"

definition finish :: "builder \<Rightarrow> nat \<Rightarrow> FullCommand \<Rightarrow> FullCommand" where
  "finish b n f = f\<lparr>num_cmds := int n + 1, file_in := loc_file_in b, file_out := loc_file_out b\<rparr>"

text \<open>The state in which the while loop starts.\<close>

definition start :: "heap \<Rightarrow> builder" where
  "start h = \<lparr>fcmdp = malloc_FullCommand h, toks = malloc_toks h, pos = 0, num_cmd = 0,
              offset = 0, loc_file_in = Null, loc_file_out = Null\<rparr>"

text \<open>
  The loop invariant, for the tokens \<open>p\<close> consumed so far. \<open>toks\<close> holds the last token
  just below \<open>pos\<close>; \<open>num_cmd\<close> counts the \<open>|\<close> tokens; every closed command holds the
  argument vector of its segment; of the open command, the first \<open>offset\<close> slots either
  are exactly the segment's tokens (no operand seen yet) or already contain the NULL that
  ends its argument vector; the two file variables and \<open>overwrite\<close> follow the last
  redirection with an operand.
\<close>

definition binv :: "string list \<Rightarrow> builder \<Rightarrow> bool" where
  "binv p b \<longleftrightarrow>
     length (toks b) = 128 \<and> pos b = length p \<and> length p \<le> 128 \<and>
     (p \<noteq> [] \<longrightarrow> toks b ! (length p - 1) = Ptr (last p)) \<and>
     shaped (fcmdp b) \<and>
     num_cmd b = count_list p ''|'' \<and> num_cmd b \<le> 16 \<and>
     (\<forall>j < num_cmd b.
        argv_of (args_at (fcmdp b) j) = Some (stage_argv (segments p ! j)) \<and>
        slots_used False (segments p ! j) \<le> 100) \<and>
     offset b = slots_used False (last (segments p)) \<and>
     (num_cmd b < 16 \<longrightarrow>
        offset b \<le> 101 \<and>
        (if has_operand (last (segments p))
         then argv_of (take (offset b) (args_at (fcmdp b) (num_cmd b)))
                = Some (stage_argv (last (segments p)))
         else take (offset b) (args_at (fcmdp b) (num_cmd b)) = map Ptr (last (segments p)))) \<and>
     loc_file_in b = target (last_operand (\<lambda>t. t = ''<'') p) \<and>
     loc_file_out b = target (last_operand is_out p) \<and>
     (\<forall>opr f. last_operand is_out p = Some (opr, f) \<longrightarrow>
        overwrite (fcmdp b) = (if opr = ''>'' then 1 else 0))"

section \<open>Vocabulary for the statements about the executor\<close>

text \<open>The forks and the waits among the events of a run.\<close>

fun is_fork :: "event \<Rightarrow> bool" where
  "is_fork (Sys_fork i a b c) = True"
| "is_fork e = False"

fun is_wait :: "event \<Rightarrow> bool" where
  "is_wait (Sys_waitpid i s) = True"
| "is_wait e = False"

definition forks :: "event list \<Rightarrow> event list" where
  "forks ev = filter is_fork ev"

definition waits :: "event list \<Rightarrow> event list" where
  "waits ev = filter is_wait ev"

text \<open>
  What the child of command \<open>j\<close> is proved to inherit. Its standard input is the
  pipeline's input for command 0 and otherwise the read end of the pipe that the pass
  before created. Its standard output is the write end of its own pipe, except for the
  last command, which gets the output file, or the inherited output when there is none;
  when the output file cannot be opened, \<open>dup2\<close> fails and descriptor 1 stays what the
  pass before left there.
\<close>

definition pipeline_stdin :: "FullCommand \<Rightarrow> endpoint" where
  "pipeline_stdin cmd = (case file_in cmd of Ptr f \<Rightarrow> File_read f | _ \<Rightarrow> Inherited_in)"

definition stage_stdin :: "endpoint \<Rightarrow> nat \<Rightarrow> endpoint" where
  "stage_stdin first j = (if j = 0 then first else Pipe_read (j - 1))"

definition stage_stdout :: "os \<Rightarrow> FullCommand \<Rightarrow> nat \<Rightarrow> endpoint" where
  "stage_stdout env cmd j =
     (if int j = num_cmds cmd - 1 then
        (case file_out cmd of
           Ptr f \<Rightarrow>
             if can_write env f
             then (if overwrite cmd \<noteq> 0 then File_trunc f else File_append f)
             else (if j = 0 then Inherited_out else Pipe_write (j - 1))
         | _ \<Rightarrow> Inherited_out)
      else Pipe_write j)"

definition stage_fork :: "os \<Rightarrow> FullCommand \<Rightarrow> endpoint \<Rightarrow> nat \<Rightarrow> event" where
  "stage_fork env cmd first j =
     Sys_fork j (stage_stdin first j) (stage_stdout env cmd j) (child_argv cmd j)"

text \<open>What \<open>loop\<close> itself does in a pass before it calls \<open>cmd_builder\<close>.\<close>

definition prompt_events :: "int \<Rightarrow> string \<Rightarrow> event list" where
  "prompt_events backup line =
     Prompt # (if backup \<noteq> 0
               then [Backup_write ''> '', Backup_write line, Backup_write [CHR 0x0A]]
               else [])"

text \<open>
  A \<open>FullCommand\<close> written down directly: one command per argument list, each array
  being the arguments and the closing NULL.
\<close>

definition pipeline_of :: "string list list \<Rightarrow> cell \<Rightarrow> cell \<Rightarrow> int \<Rightarrow> FullCommand" where
  "pipeline_of stages fin fout ow =
     \<lparr>num_cmds = int (length stages),
      cmds = map (\<lambda>a. \<lparr>num_args = int (length a), args = map Ptr a @ [Null]\<rparr>) stages,
      file_out = fout, file_in = fin, overwrite = ow\<rparr>"


section \<open>Concrete environments for the worked examples\<close>

text \<open>
  A heap whose fresh memory holds wild pointers and non-zero integers, a second heap that
  differs from it in every integer, and an environment in which \<open>in.txt\<close> can be read,
  \<open>out.txt\<close> can be written and every child ends with status 0.
\<close>

definition heap0 :: heap where
  "heap0 = \<lparr>h_num_cmds = 7, h_num_args = (\<lambda>_. 5), h_args = (\<lambda>_ _. Wild), h_file_out = Wild,
            h_file_in = Wild, h_overwrite = 9, h_toks = (\<lambda>_. Wild), h_toks_ok = True\<rparr>"

definition heap1 :: heap where
  "heap1 = \<lparr>h_num_cmds = 0, h_num_args = (\<lambda>_. 0), h_args = (\<lambda>_ _. Null), h_file_out = Null,
            h_file_in = Null, h_overwrite = 0, h_toks = (\<lambda>_. Null), h_toks_ok = True\<rparr>"

definition os0 :: os where
  "os0 = \<lparr>can_read = (\<lambda>f. f = ''in.txt''), can_write = (\<lambda>f. f = ''out.txt''),
          exit_status = (\<lambda>_. 0), fresh_heap = (\<lambda>_. heap0)\<rparr>"

definition echo_tr :: FullCommand where
  "echo_tr = pipeline_of [[''echo'', ''hi''], [''tr'', ''a-z'', ''A-Z'']] Null Null 0"

definition cat_missing :: FullCommand where
  "cat_missing = pipeline_of [[''cat'']] (Ptr ''missing'') Null 0"

definition seventeen_stages :: string where
  "seventeen_stages = concat (replicate 16 ''a | '') @ ''a''"

definition hundred_one_args :: string where
  "hundred_one_args = concat (replicate 101 ''a '')"

section \<open>The parser loop: invariant and characterisation\<close>

text \<open>
  The proof follows the loop: the tokens are taken one at a time at the end of the
  consumed prefix, so the facts about \<open>segments\<close>, \<open>stage_argv\<close>, \<open>slots_used\<close> and
  \<open>last_operand\<close> are first turned into equations for a list with one more token at its
  end, and the invariant \<open>binv\<close> is then shown to be kept by each branch of the loop body.
\<close>

lemma segments_nonempty [simp]: "segments p \<noteq> []"
  by (induction p) auto

lemma segments_snoc_pipe: "segments (p @ [''|'']) = segments p @ [[]]"
  by (induction p) (auto simp: hd_append)

lemma segments_snoc_other:
  "t \<noteq> ''|'' \<Longrightarrow> segments (p @ [t]) = butlast (segments p) @ [last (segments p) @ [t]]"
proof (induction p)
  case Nil
  then show ?case by simp
next
  case (Cons a p)
  obtain s ss where sp: "segments p = s # ss" by (cases "segments p") auto
  show ?case using Cons sp by (cases ss) (auto)
qed

lemma length_segments: "length (segments p) = Suc (count_list p ''|'')"
  by (induction p) auto

lemma has_operand_snoc:
  "has_operand (c @ [t]) = (has_operand c \<or> (c \<noteq> [] \<and> is_redir (last c)))"
  by (induction c rule: has_operand.induct) auto

lemma stage_argv_id: "\<not> has_operand c \<Longrightarrow> stage_argv c = c"
  by (induction c rule: has_operand.induct) auto

lemma stage_argv_snoc:
  "stage_argv (c @ [t]) =
     (if has_operand c then stage_argv c
      else if c \<noteq> [] \<and> is_redir (last c) then butlast c
      else c @ [t])"
  by (induction c rule: has_operand.induct) (auto simp: stage_argv_id)

lemma slots_used_snoc:
  "slots_used prev (c @ [t]) =
     slots_used prev c + (if (if c = [] then prev else is_redir (last c)) then 0 else 1)"
  by (induction c arbitrary: prev) auto

lemma last_operand_snoc:
  "last_operand P (p @ [t]) =
     (if p \<noteq> [] \<and> P (last p) \<and> t \<noteq> ''|'' then Some (last p, t) else last_operand P p)"
  by (induction P p rule: last_operand.induct) (auto split: option.splits)

lemma argv_of_Ptrs: "argv_of (map Ptr xs @ Null # r) = Some xs"
  by (induction xs) auto

lemma argv_of_append: "argv_of a = Some xs \<Longrightarrow> argv_of (a @ r) = Some xs"
  by (induction a arbitrary: xs rule: argv_of.induct) auto

lemma argv_of_length: "argv_of a = Some xs \<Longrightarrow> length xs < length a"
  by (induction a arbitrary: xs rule: argv_of.induct) auto

lemma argv_of_update:
  "argv_of a = Some xs \<Longrightarrow> length xs \<le> i \<Longrightarrow> argv_of (a[i := Null]) = Some xs"
  by (induction a arbitrary: xs i rule: argv_of.induct) (auto split: nat.splits)

lemma nth_upd_gen: "xs[c := y] ! j = (if c = j \<and> c < length xs then y else xs ! j)"
  by (cases "c < length xs") (auto simp: nth_list_update list_update_beyond)

lemma set_arg_shaped:
  "shaped f \<Longrightarrow> set_arg c i v f = (if c < 16 \<and> i < 101 then Inr (put c i v f) else Inl Out_of_bounds)"
  by (auto simp: shaped_def set_arg_def put_def)

lemma incr_num_args_shaped:
  "shaped f \<Longrightarrow> incr_num_args c f = (if c < 16 then Inr (bump c f) else Inl Out_of_bounds)"
  by (auto simp: shaped_def incr_num_args_def bump_def)

lemma shaped_put [simp]: "shaped f \<Longrightarrow> shaped (put c i v f)"
  by (auto simp: shaped_def put_def nth_upd_gen)

lemma shaped_bump [simp]: "shaped f \<Longrightarrow> shaped (bump c f)"
  by (auto simp: shaped_def bump_def nth_upd_gen)

lemma shaped_overwrite [simp]: "shaped (f\<lparr>overwrite := x\<rparr>) = shaped f"
  by (simp add: shaped_def)

lemma args_at_put:
  "shaped f \<Longrightarrow> c < 16 \<Longrightarrow>
   args_at (put c i v f) c' = (if c' = c then (args_at f c)[i := v] else args_at f c')"
  by (auto simp: shaped_def put_def args_at_def nth_upd_gen)

lemma args_at_bump [simp]: "args_at (bump c f) c' = args_at f c'"
  by (auto simp: bump_def args_at_def nth_upd_gen)

lemma args_at_overwrite [simp]: "args_at (f\<lparr>overwrite := x\<rparr>) c = args_at f c"
  by (simp add: args_at_def)

lemma overwrite_put [simp]: "overwrite (put c i v f) = overwrite f"
  by (simp add: put_def)

lemma overwrite_bump [simp]: "overwrite (bump c f) = overwrite f"
  by (simp add: bump_def)

lemma length_args_at: "shaped f \<Longrightarrow> c < 16 \<Longrightarrow> length (args_at f c) = 101"
  by (simp add: shaped_def args_at_def)

lemma last_segments_snoc:
  "last (segments (p @ [t])) = (if t = ''|'' then [] else last (segments p) @ [t])"
  by (simp add: segments_snoc_pipe segments_snoc_other)

lemma last_segments_prev:
  "p \<noteq> [] \<Longrightarrow> last p \<noteq> ''|'' \<Longrightarrow> last (segments p) \<noteq> [] \<and> last (last (segments p)) = last p"
  by (cases p rule: rev_cases) (auto simp: last_segments_snoc)

lemma last_segments_pipe: "p = [] \<or> last p = ''|'' \<Longrightarrow> last (segments p) = []"
  by (cases p rule: rev_cases) (auto simp: last_segments_snoc)

lemma prev_is_written:
  assumes "binv p b"  "length p < 128"
  shows "prev_is (b\<lparr>toks := (toks b)[pos b := Ptr t]\<rparr>) x = Inr (p \<noteq> [] \<and> last p = x)"
proof (cases "p = []")
  case True
  then show ?thesis using assms by (simp add: binv_def prev_is_def)
next
  case False
  then have ne: "length p \<noteq> length p - 1" by (cases p) auto
  have "(toks b)[length p := Ptr t] ! (length p - 1) = Ptr (last p)"
    using assms False ne by (simp add: binv_def nth_upd_gen)
  then show ?thesis using assms False by (simp add: binv_def prev_is_def)
qed

lemma slots_used_pos: "c \<noteq> [] \<Longrightarrow> 0 < slots_used False c"
  by (cases c) auto

lemma last_segments_last:
  "last (segments p) \<noteq> [] \<Longrightarrow> p \<noteq> [] \<and> last (last (segments p)) = last p \<and> last p \<noteq> ''|''"
  by (cases p rule: rev_cases) (auto simp: last_segments_snoc split: if_splits)

lemma is_redir_pipe [simp]: "\<not> is_redir ''|''"
  by (simp add: is_redir_def)

lemma loop_body_inv:
  assumes "binv p b"
  shows "loop_body b t =
    (if 128 \<le> length p \<or> 16 \<le> num_cmd b \<or> 101 \<le> offset b then Inl Out_of_bounds
     else
       let b1 = b\<lparr>toks := (toks b)[pos b := Ptr t]\<rparr>;
           f1 = put (num_cmd b) (offset b) (Ptr t) (fcmdp b)
       in if t = ''|'' then
            Inr (b1\<lparr>fcmdp := put (num_cmd b) (offset b) Null f1, offset := 0,
                     num_cmd := num_cmd b + 1, pos := pos b + 1\<rparr>)
          else if p \<noteq> [] \<and> last p = ''>'' then
            Inr (b1\<lparr>loc_file_out := Ptr t,
                     fcmdp := (put (num_cmd b) (offset b - 1) Null f1)\<lparr>overwrite := 1\<rparr>,
                     pos := pos b + 1\<rparr>)
          else if p \<noteq> [] \<and> last p = ''<'' then
            Inr (b1\<lparr>loc_file_in := Ptr t, fcmdp := put (num_cmd b) (offset b - 1) Null f1,
                     pos := pos b + 1\<rparr>)
          else if p \<noteq> [] \<and> last p = ''>>'' then
            Inr (b1\<lparr>loc_file_out := Ptr t,
                     fcmdp := (put (num_cmd b) (offset b - 1) Null f1)\<lparr>overwrite := 0\<rparr>,
                     pos := pos b + 1\<rparr>)
          else
            Inr (b1\<lparr>pos := pos b + 1, offset := offset b + 1,
                     fcmdp := bump (num_cmd b) f1\<rparr>))"
proof (cases "128 \<le> length p \<or> 16 \<le> num_cmd b \<or> 101 \<le> offset b")
  case True
  then show ?thesis using assms
    by (auto simp: loop_body_def binv_def set_arg_shaped Let_def)
next
  case False
  then have lt: "length p < 128" "num_cmd b < 16" "offset b < 101" by auto
  have sh: "shaped (fcmdp b)" and pos: "pos b = length p" and lt2: "length (toks b) = 128"
    using assms by (auto simp: binv_def)
  have off: "offset b = slots_used False (last (segments p))"
    using assms by (simp add: binv_def)
  have pr: "\<And>x. prev_is (b\<lparr>toks := (toks b)[pos b := Ptr t]\<rparr>) x = Inr (p \<noteq> [] \<and> last p = x)"
    using prev_is_written [OF assms lt(1)] .
  have offpos: "p \<noteq> [] \<Longrightarrow> is_redir (last p) \<Longrightarrow> 0 < offset b"
  proof -
    assume a: "p \<noteq> []" "is_redir (last p)"
    then have "last p \<noteq> ''|''" by auto
    then have "last (segments p) \<noteq> []" using last_segments_prev a by blast
    then show ?thesis unfolding off by (rule slots_used_pos)
  qed
  have nb: "p \<noteq> [] \<Longrightarrow> is_redir (last p) \<Longrightarrow>
        null_before b (put (num_cmd b) (offset b) (Ptr t) (fcmdp b))
          = Inr (put (num_cmd b) (offset b - 1) Null (put (num_cmd b) (offset b) (Ptr t) (fcmdp b)))"
    using offpos lt sh by (auto simp: null_before_def set_arg_shaped)
  show ?thesis
    using lt sh pos lt2 pr nb
    by (auto simp: loop_body_def set_arg_shaped incr_num_args_shaped Let_def is_redir_def)
qed

lemma binvD:
  assumes "binv p b"
  shows "length (toks b) = 128" and "pos b = length p" and "length p \<le> 128"
    and "p \<noteq> [] \<Longrightarrow> toks b ! (length p - 1) = Ptr (last p)"
    and "shaped (fcmdp b)"
    and "num_cmd b = count_list p ''|''" and "num_cmd b \<le> 16"
    and "\<And>j. j < num_cmd b \<Longrightarrow>
           argv_of (args_at (fcmdp b) j) = Some (stage_argv (segments p ! j)) \<and>
           slots_used False (segments p ! j) \<le> 100"
    and "offset b = slots_used False (last (segments p))"
    and "num_cmd b < 16 \<Longrightarrow> offset b \<le> 101"
    and "num_cmd b < 16 \<Longrightarrow>
           (if has_operand (last (segments p))
            then argv_of (take (offset b) (args_at (fcmdp b) (num_cmd b)))
                   = Some (stage_argv (last (segments p)))
            else take (offset b) (args_at (fcmdp b) (num_cmd b)) = map Ptr (last (segments p)))"
    and "loc_file_in b = target (last_operand (\<lambda>t. t = ''<'') p)"
    and "loc_file_out b = target (last_operand is_out p)"
    and "\<And>opr f. last_operand is_out p = Some (opr, f) \<Longrightarrow>
           overwrite (fcmdp b) = (if opr = ''>'' then 1 else 0)"
  using assms unfolding binv_def by blast+

lemma argv_closed:
  assumes "length a = 101" "off < 101"
    and "if has_operand c then argv_of (take off a) = Some (stage_argv c)
         else take off a = map Ptr c"
  shows "argv_of (a[off := Null]) = Some (stage_argv c)"
proof -
  have e: "a[off := Null] = take off a @ Null # drop (Suc off) a"
    using assms(1,2) by (simp add: upd_conv_take_nth_drop)
  show ?thesis
  proof (cases "has_operand c")
    case True
    then show ?thesis using assms(3) e by (simp add: argv_of_append)
  next
    case False
    then show ?thesis using assms(3) e by (simp add: argv_of_Ptrs stage_argv_id)
  qed
qed

lemma segments_nth_snoc:
  "j < count_list p ''|'' \<Longrightarrow> segments (p @ [t]) ! j = segments p ! j"
proof (cases "t = ''|''")
  case True
  assume "j < count_list p ''|''"
  then show ?thesis using True by (simp add: segments_snoc_pipe nth_append length_segments)
next
  case False
  assume "j < count_list p ''|''"
  then have "j < length (butlast (segments p))" by (simp add: length_segments)
  then show ?thesis using False by (simp add: segments_snoc_other nth_append nth_butlast)
qed

lemma segments_nth_last: "segments p ! count_list p ''|'' = last (segments p)"
  by (simp add: last_conv_nth length_segments)

lemma binv_pipe:
  assumes "binv p b" "length p < 128" "num_cmd b < 16" "offset b < 101"
  shows "binv (p @ [''|''])
           (b\<lparr>toks := (toks b)[pos b := Ptr ''|''],
              fcmdp := put (num_cmd b) (offset b) Null
                         (put (num_cmd b) (offset b) (Ptr ''|'') (fcmdp b)),
              offset := 0, num_cmd := num_cmd b + 1, pos := pos b + 1\<rparr>)"
proof -
  let ?f = "put (num_cmd b) (offset b) Null (put (num_cmd b) (offset b) (Ptr ''|'') (fcmdp b))"
  let ?c = "last (segments p)"
  note sh = binvD(5) [OF assms(1)] and nc = binvD(6) [OF assms(1)]
    and off = binvD(9) [OF assms(1)] and cur = binvD(11) [OF assms(1,3)]
    and old = binvD(8) [OF assms(1)]
  have at: "\<And>j. args_at ?f j =
       (if j = num_cmd b then (args_at (fcmdp b) (num_cmd b))[offset b := Null]
        else args_at (fcmdp b) j)"
    using sh assms(3) by (simp add: args_at_put)
  have closed: "argv_of ((args_at (fcmdp b) (num_cmd b))[offset b := Null]) = Some (stage_argv ?c)"
    using argv_closed [OF length_args_at [OF sh assms(3)] assms(4) cur] .
  have stages: "\<forall>j < num_cmd b + 1.
        argv_of (args_at ?f j) = Some (stage_argv (segments (p @ [''|'']) ! j)) \<and>
        slots_used False (segments (p @ [''|'']) ! j) \<le> 100"
  proof (intro allI impI)
    fix j assume j: "j < num_cmd b + 1"
    show "argv_of (args_at ?f j) = Some (stage_argv (segments (p @ [''|'']) ! j)) \<and>
        slots_used False (segments (p @ [''|'']) ! j) \<le> 100"
    proof (cases "j = num_cmd b")
      case True
      have "segments (p @ [''|'']) ! j = ?c"
        using True nc by (simp add: segments_snoc_pipe nth_append length_segments last_conv_nth)
      then show ?thesis using True at closed off assms(4) by simp
    next
      case False
      then have jl: "j < num_cmd b" using j by simp
      then have "segments (p @ [''|'']) ! j = segments p ! j"
        using nc by (simp add: segments_nth_snoc)
      then show ?thesis using False at old [OF jl] by simp
    qed
  qed
  note tk = binvD(1,2) [OF assms(1)]
  have targets: "loc_file_in b = target (last_operand (\<lambda>t. t = ''<'') (p @ [''|'']))"
     "loc_file_out b = target (last_operand is_out (p @ [''|'']))"
     "\<forall>opr f. last_operand is_out (p @ [''|'']) = Some (opr, f) \<longrightarrow>
        overwrite (fcmdp b) = (if opr = ''>'' then 1 else 0)"
    using binvD(12,13,14) [OF assms(1)] by (auto simp: last_operand_snoc)
  show ?thesis
    unfolding binv_def
    using stages tk targets sh nc assms(2,3)
    by (simp add: last_segments_snoc)
qed

lemma map_Ptr_butlast_Null:
  "c \<noteq> [] \<Longrightarrow> (map Ptr c)[length c - 1 := Null] = map Ptr (butlast c) @ [Null]"
  by (induction c rule: rev_induct) (auto simp: list_update_append)

lemma binv_redirect:
  assumes i: "binv p b" and lt: "length p < 128" "num_cmd b < 16" "offset b < 101"
    and pr: "p \<noteq> []" "is_redir (last p)" and t: "t \<noteq> ''|''"
    and tk: "toks b' = (toks b)[pos b := Ptr t]" "pos b' = pos b + 1"
    and same: "num_cmd b' = num_cmd b" "offset b' = offset b"
    and sh': "shaped (fcmdp b')"
    and at': "\<And>j. args_at (fcmdp b') j =
               args_at (put (num_cmd b) (offset b - 1) Null
                         (put (num_cmd b) (offset b) (Ptr t) (fcmdp b))) j"
    and fi: "loc_file_in b' = target (last_operand (\<lambda>t. t = ''<'') (p @ [t]))"
    and fo: "loc_file_out b' = target (last_operand is_out (p @ [t]))"
    and ov: "\<And>opr f. last_operand is_out (p @ [t]) = Some (opr, f) \<Longrightarrow>
               overwrite (fcmdp b') = (if opr = ''>'' then 1 else 0)"
  shows "binv (p @ [t]) b'"
proof -
  let ?c = "last (segments p)"
  let ?a = "args_at (fcmdp b) (num_cmd b)"
  note sh = binvD(5) [OF i] and nc = binvD(6) [OF i] and off = binvD(9) [OF i]
    and cur = binvD(11) [OF i lt(2)] and old = binvD(8) [OF i]
  have np: "last p \<noteq> ''|''" using pr(2) by auto
  have c: "?c \<noteq> []" "last ?c = last p" using last_segments_prev [OF pr(1) np] by auto
  have offpos: "0 < offset b" unfolding off using c(1) by (rule slots_used_pos)
  have la: "length ?a = 101" using length_args_at [OF sh lt(2)] .
  have at: "\<And>j. args_at (fcmdp b') j =
       (if j = num_cmd b then ?a[offset b := Ptr t, offset b - 1 := Null]
        else args_at (fcmdp b) j)"
    using sh lt(2) by (simp add: at' args_at_put)
  have tko: "take (offset b) (?a[offset b := Ptr t, offset b - 1 := Null])
             = (take (offset b) ?a)[offset b - 1 := Null]"
    using la lt(3) by (simp add: take_update_swap list_update_beyond)
  have hc: "has_operand (?c @ [t])" using c pr(2) by (simp add: has_operand_snoc)
  have su: "slots_used False (?c @ [t]) = offset b"
    using c pr(2) off by (simp add: slots_used_snoc)
  have cur': "argv_of ((take (offset b) ?a)[offset b - 1 := Null]) = Some (stage_argv (?c @ [t]))"
  proof (cases "has_operand ?c")
    case True
    then have a: "argv_of (take (offset b) ?a) = Some (stage_argv ?c)" using cur by simp
    have "length (stage_argv ?c) < length (take (offset b) ?a)" using argv_of_length [OF a] .
    then have "length (stage_argv ?c) \<le> offset b - 1" using la lt(3) by simp
    then show ?thesis using True argv_of_update [OF a] by (simp add: stage_argv_snoc)
  next
    case False
    then have a: "take (offset b) ?a = map Ptr ?c" using cur by simp
    then have "length (take (offset b) ?a) = length ?c" by simp
    then have l: "offset b = length ?c" using la lt(3) by simp
    have "(take (offset b) ?a)[offset b - 1 := Null] = (map Ptr ?c)[length ?c - 1 := Null]"
      using a l by simp
    then have "(take (offset b) ?a)[offset b - 1 := Null] = map Ptr (butlast ?c) @ [Null]"
      using map_Ptr_butlast_Null [OF c(1)] by simp
    then show ?thesis using False c pr(2) argv_of_Ptrs [of "butlast ?c" "[]"]
      by (simp add: stage_argv_snoc)
  qed
  have stages: "\<forall>j < num_cmd b'.
        argv_of (args_at (fcmdp b') j) = Some (stage_argv (segments (p @ [t]) ! j)) \<and>
        slots_used False (segments (p @ [t]) ! j) \<le> 100"
    using old nc [symmetric] same(1) at by (simp add: segments_nth_snoc)
  have tok: "toks b' ! (length (p @ [t]) - 1) = Ptr (last (p @ [t]))"
    using tk binvD(1,2) [OF i] lt(1) by simp
  show ?thesis
    unfolding binv_def
    using stages tok tk same sh' fi fo ov binvD(1,2,3,7) [OF i] nc [symmetric] lt t hc su cur' at tko
    by (simp add: last_segments_snoc)
qed

lemma binv_plain:
  assumes i: "binv p b" and lt: "length p < 128" "num_cmd b < 16" "offset b < 101"
    and pr: "p = [] \<or> \<not> is_redir (last p)" and t: "t \<noteq> ''|''"
  shows "binv (p @ [t])
           (b\<lparr>toks := (toks b)[pos b := Ptr t], pos := pos b + 1, offset := offset b + 1,
              fcmdp := bump (num_cmd b) (put (num_cmd b) (offset b) (Ptr t) (fcmdp b))\<rparr>)"
proof -
  let ?c = "last (segments p)"
  let ?a = "args_at (fcmdp b) (num_cmd b)"
  let ?f = "bump (num_cmd b) (put (num_cmd b) (offset b) (Ptr t) (fcmdp b))"
  note sh = binvD(5) [OF i] and nc = binvD(6) [OF i] and off = binvD(9) [OF i]
    and cur = binvD(11) [OF i lt(2)] and old = binvD(8) [OF i]
  have c: "?c = [] \<or> \<not> is_redir (last ?c)"
    using pr last_segments_last [of p] by auto
  have la: "length ?a = 101" using length_args_at [OF sh lt(2)] .
  have at: "\<And>j. args_at ?f j =
       (if j = num_cmd b then ?a[offset b := Ptr t] else args_at (fcmdp b) j)"
    using sh lt(2) by (simp add: args_at_put)
  have tko: "take (Suc (offset b)) (?a[offset b := Ptr t]) = take (offset b) ?a @ [Ptr t]"
    using la lt(3) by (simp add: take_Suc_conv_app_nth)
  have hc: "has_operand (?c @ [t]) = has_operand ?c" using c by (auto simp: has_operand_snoc)
  have su: "slots_used False (?c @ [t]) = offset b + 1"
    using c off by (auto simp: slots_used_snoc)
  have cur': "if has_operand ?c
              then argv_of (take (offset b) ?a @ [Ptr t]) = Some (stage_argv (?c @ [t]))
              else take (offset b) ?a @ [Ptr t] = map Ptr (?c @ [t])"
    using cur c by (auto simp: stage_argv_snoc argv_of_append)
  have stages: "\<forall>j < num_cmd b.
        argv_of (args_at ?f j) = Some (stage_argv (segments (p @ [t]) ! j)) \<and>
        slots_used False (segments (p @ [t]) ! j) \<le> 100"
    using old nc [symmetric] at by (simp add: segments_nth_snoc)
  have tok: "(toks b)[pos b := Ptr t] ! (length (p @ [t]) - 1) = Ptr (last (p @ [t]))"
    using binvD(1,2) [OF i] lt(1) by simp
  have targets: "loc_file_in b = target (last_operand (\<lambda>t. t = ''<'') (p @ [t]))"
     "loc_file_out b = target (last_operand is_out (p @ [t]))"
     "\<forall>opr f. last_operand is_out (p @ [t]) = Some (opr, f) \<longrightarrow>
        overwrite (fcmdp b) = (if opr = ''>'' then 1 else 0)"
    using binvD(12,13,14) [OF i] pr by (auto simp: last_operand_snoc is_redir_def is_out_def)
  show ?thesis
    unfolding binv_def
    using stages tok targets sh binvD(1,2,3,7) [OF i] nc [symmetric] lt t hc su cur' at tko
    by (simp add: last_segments_snoc)
qed

lemma binv_step:
  assumes "binv p b" "loop_body b t = Inr b'"
  shows "binv (p @ [t]) b'"
proof -
  note lb = loop_body_inv [OF assms(1), of t]
  have lt: "length p < 128" "num_cmd b < 16" "offset b < 101"
    using lb assms(2) by (auto split: if_splits)
  note sh = binvD(5) [OF assms(1)]
  consider (pipe) "t = ''|''"
    | (out) "t \<noteq> ''|''" "p \<noteq> []" "last p = ''>''"
    | (inp) "t \<noteq> ''|''" "p \<noteq> []" "last p = ''<''"
    | (app) "t \<noteq> ''|''" "p \<noteq> []" "last p = ''>>''"
    | (plain) "t \<noteq> ''|''" "p = [] \<or> \<not> is_redir (last p)"
    by (auto simp: is_redir_def)
  then show ?thesis
  proof cases
    case pipe
    then show ?thesis using lb lt assms(2) binv_pipe [OF assms(1) lt] by (simp add: Let_def)
  next
    case out
    have b': "b' = b\<lparr>toks := (toks b)[pos b := Ptr t], loc_file_out := Ptr t,
                 fcmdp := (put (num_cmd b) (offset b - 1) Null
                            (put (num_cmd b) (offset b) (Ptr t) (fcmdp b)))\<lparr>overwrite := 1\<rparr>,
                 pos := pos b + 1\<rparr>"
      using lb lt assms(2) out by (simp add: Let_def)
    show ?thesis
    proof (rule binv_redirect [OF assms(1) lt out(2) _ out(1)])
      show "is_redir (last p)" using out by (simp add: is_redir_def)
      show "loc_file_in b' = target (last_operand (\<lambda>t. t = ''<'') (p @ [t]))"
        using binvD(12) [OF assms(1)] out by (simp add: b' last_operand_snoc)
      show "loc_file_out b' = target (last_operand is_out (p @ [t]))"
        using out by (simp add: b' last_operand_snoc is_out_def target_def)
      show "\<And>opr f. last_operand is_out (p @ [t]) = Some (opr, f) \<Longrightarrow>
               overwrite (fcmdp b') = (if opr = ''>'' then 1 else 0)"
        using out by (auto simp: b' last_operand_snoc is_out_def)
    qed (simp_all add: b' sh)
  next
    case inp
    have b': "b' = b\<lparr>toks := (toks b)[pos b := Ptr t], loc_file_in := Ptr t,
                 fcmdp := put (num_cmd b) (offset b - 1) Null
                            (put (num_cmd b) (offset b) (Ptr t) (fcmdp b)),
                 pos := pos b + 1\<rparr>"
      using lb lt assms(2) inp by (simp add: Let_def)
    show ?thesis
    proof (rule binv_redirect [OF assms(1) lt inp(2) _ inp(1)])
      show "is_redir (last p)" using inp by (simp add: is_redir_def)
      show "loc_file_in b' = target (last_operand (\<lambda>t. t = ''<'') (p @ [t]))"
        using inp by (simp add: b' last_operand_snoc target_def)
      show "loc_file_out b' = target (last_operand is_out (p @ [t]))"
        using binvD(13) [OF assms(1)] inp by (simp add: b' last_operand_snoc is_out_def)
      show "\<And>opr f. last_operand is_out (p @ [t]) = Some (opr, f) \<Longrightarrow>
               overwrite (fcmdp b') = (if opr = ''>'' then 1 else 0)"
        using binvD(14) [OF assms(1)] inp by (auto simp: b' last_operand_snoc is_out_def)
    qed (simp_all add: b' sh)
  next
    case app
    have b': "b' = b\<lparr>toks := (toks b)[pos b := Ptr t], loc_file_out := Ptr t,
                 fcmdp := (put (num_cmd b) (offset b - 1) Null
                            (put (num_cmd b) (offset b) (Ptr t) (fcmdp b)))\<lparr>overwrite := 0\<rparr>,
                 pos := pos b + 1\<rparr>"
      using lb lt assms(2) app by (simp add: Let_def)
    show ?thesis
    proof (rule binv_redirect [OF assms(1) lt app(2) _ app(1)])
      show "is_redir (last p)" using app by (simp add: is_redir_def)
      show "loc_file_in b' = target (last_operand (\<lambda>t. t = ''<'') (p @ [t]))"
        using binvD(12) [OF assms(1)] app by (simp add: b' last_operand_snoc)
      show "loc_file_out b' = target (last_operand is_out (p @ [t]))"
        using app by (simp add: b' last_operand_snoc is_out_def target_def)
      show "\<And>opr f. last_operand is_out (p @ [t]) = Some (opr, f) \<Longrightarrow>
               overwrite (fcmdp b') = (if opr = ''>'' then 1 else 0)"
        using app by (auto simp: b' last_operand_snoc is_out_def)
    qed (simp_all add: b' sh)
  next
    case plain
    have "b' = b\<lparr>toks := (toks b)[pos b := Ptr t], pos := pos b + 1, offset := offset b + 1,
              fcmdp := bump (num_cmd b) (put (num_cmd b) (offset b) (Ptr t) (fcmdp b))\<rparr>"
      using lb lt assms(2) plain by (auto simp: Let_def is_redir_def)
    then show ?thesis using binv_plain [OF assms(1) lt plain(2) plain(1)] by simp
  qed
qed

lemma loop_body_defined:
  assumes "binv p b"
  shows "(\<exists>b'. loop_body b t = Inr b') \<longleftrightarrow> length p < 128 \<and> num_cmd b < 16 \<and> offset b < 101"
  unfolding loop_body_inv [OF assms, of t] by (auto simp: Let_def)

lemma loop_body_fault:
  assumes "binv p b" "loop_body b t = Inl e"
  shows "e = Out_of_bounds"
  using assms(2) unfolding loop_body_inv [OF assms(1), of t]
  by (auto simp: Let_def split: if_splits)

lemma while_tok_snoc:
  "while_tok b (p @ [t]) =
     (case while_tok b p of Inl e \<Rightarrow> Inl e | Inr b' \<Rightarrow> loop_body b' t)"
  by (induction p arbitrary: b) (auto split: sum.splits)

lemma shaped_malloc: "shaped (malloc_FullCommand h)"
  by (simp add: shaped_def malloc_FullCommand_def malloc_Command_def)

lemma binv_start: "binv [] (start h)"
  by (simp add: binv_def start_def shaped_malloc malloc_toks_def TKS_BUFFER_SIZE_def target_def)

lemma while_tok_inv: "while_tok (start h) p = Inr b \<Longrightarrow> binv p b"
proof (induction p arbitrary: b rule: rev_induct)
  case Nil
  then show ?case using binv_start [of h] by auto
next
  case (snoc t p)
  then obtain b0 where b0: "while_tok (start h) p = Inr b0" "loop_body b0 t = Inr b"
    by (auto simp: while_tok_snoc split: sum.splits)
  show ?case using binv_step [OF snoc.IH [OF b0(1)] b0(2)] .
qed

lemma while_tok_fault: "while_tok (start h) p = Inl e \<Longrightarrow> e = Out_of_bounds"
proof (induction p arbitrary: e rule: rev_induct)
  case Nil
  then show ?case by simp
next
  case (snoc t p)
  show ?case
  proof (cases "while_tok (start h) p")
    case (Inl e')
    then show ?thesis using snoc by (simp add: while_tok_snoc)
  next
    case (Inr b0)
    then have "loop_body b0 t = Inl e" using snoc.prems by (simp add: while_tok_snoc)
    then show ?thesis using loop_body_fault [OF while_tok_inv [OF Inr]] by simp
  qed
qed

lemma slots_used_mono: "slots_used prev c \<le> slots_used prev (c @ [t])"
  by (simp add: slots_used_snoc)

lemma fits_butlast: "fits backup (p @ [t]) \<Longrightarrow> fits backup p"
proof -
  assume f: "fits backup (p @ [t])"
  have "slots_used False s \<le> 100" if s: "s \<in> set (segments p)" for s
  proof (cases "t = ''|''")
    case True
    then show ?thesis using f s by (simp add: fits_def segments_snoc_pipe)
  next
    case False
    have "segments p = butlast (segments p) @ [last (segments p)]" by simp
    then have "s \<in> set (butlast (segments p)) \<or> s = last (segments p)"
      using s by (metis Un_iff empty_iff empty_set set_ConsD set_append)
    then show ?thesis
    proof
      assume "s \<in> set (butlast (segments p))"
      then show ?thesis using f False by (simp add: fits_def segments_snoc_other)
    next
      assume e: "s = last (segments p)"
      have "slots_used False (last (segments p) @ [t]) \<le> 100"
        using f False by (simp add: fits_def segments_snoc_other)
      then show ?thesis using slots_used_mono [of False s t] e by simp
    qed
  qed
  then show ?thesis using f by (auto simp: fits_def split: if_splits)
qed

lemma while_tok_defined: "fits backup p \<Longrightarrow> \<exists>b. while_tok (start h) p = Inr b"
proof (induction p rule: rev_induct)
  case Nil
  then show ?case by simp
next
  case (snoc t p)
  then obtain b0 where b0: "while_tok (start h) p = Inr b0"
    using fits_butlast by blast
  note i = while_tok_inv [OF b0]
  have "last (segments p) \<in> set (segments p)" by simp
  then have "slots_used False (last (segments p)) \<le> 100"
    using fits_butlast [OF snoc.prems] unfolding fits_def by blast
  then have "offset b0 < 101" using binvD(9) [OF i] by simp
  moreover have "length p < 128" using snoc.prems by (simp add: fits_def)
  moreover have "num_cmd b0 < 16" using snoc.prems binvD(6) [OF i] by (simp add: fits_def split: if_splits)
  ultimately obtain b where "loop_body b0 t = Inr b"
    using loop_body_defined [OF i, of t] by blast
  then show ?case using b0 by (simp add: while_tok_snoc)
qed

lemma add_tee_shaped:
  "shaped f \<Longrightarrow> add_tee fname n f = (if n < 16 then Inr (tee_put fname n f) else Inl Out_of_bounds)"
  by (simp add: add_tee_def set_arg_shaped tee_put_def)

lemma cmd_builder_run:
  assumes "h_toks_ok h" "while_tok (start h) (strtok_all line) = Inr b"
  shows "cmd_builder backup fname h line =
     (if num_cmd b < 16 \<and> offset b < 101 then
        (let f1 = put (num_cmd b) (offset b) Null (fcmdp b) in
         if backup \<noteq> 0 then
           (if num_cmd b + 1 < 16
            then Inr (finish b (num_cmd b + 1) (tee_put fname (num_cmd b + 1) f1))
            else Inl Out_of_bounds)
         else Inr (finish b (num_cmd b) f1))
      else Inl Out_of_bounds)"
proof -
  have sh: "shaped (fcmdp b)" using binvD(5) [OF while_tok_inv [OF assms(2)]] .
  have w: "while_tok \<lparr>fcmdp = malloc_FullCommand h, toks = malloc_toks h, pos = 0,
                        num_cmd = 0, offset = 0, loc_file_in = Null, loc_file_out = Null\<rparr>
                       (strtok_all line) = Inr b"
    using assms(2) by (simp add: start_def)
  show ?thesis
    using assms(1) sh
    by (simp add: cmd_builder_def w set_arg_shaped add_tee_shaped finish_def Let_def)
qed

lemma cmd_builder_fault:
  assumes "h_toks_ok h" "while_tok (start h) (strtok_all line) = Inl e"
  shows "cmd_builder backup fname h line = Inl Out_of_bounds"
proof -
  have e: "e = Out_of_bounds" using while_tok_fault [OF assms(2)] .
  have w: "while_tok \<lparr>fcmdp = malloc_FullCommand h, toks = malloc_toks h, pos = 0,
                        num_cmd = 0, offset = 0, loc_file_in = Null, loc_file_out = Null\<rparr>
                       (strtok_all line) = Inl Out_of_bounds"
    using assms(2) e by (simp add: start_def)
  show ?thesis using assms(1) by (simp add: cmd_builder_def w)
qed

lemma four_updates:
  assumes "length a = 101"
  shows "argv_of (a[0 := Ptr x, 1 := Ptr y, 2 := Ptr z, 3 := Null]) = Some [x, y, z]"
proof -
  obtain a0 r0 where 0: "a = a0 # r0" using assms by (cases a) auto
  obtain a1 r1 where 1: "r0 = a1 # r1" using assms 0 by (cases r0) auto
  obtain a2 r2 where 2: "r1 = a2 # r2" using assms 0 1 by (cases r1) auto
  obtain a3 r3 where 3: "r2 = a3 # r3" using assms 0 1 2 by (cases r2) auto
  show ?thesis by (simp add: 0 1 2 3)
qed

lemma args_at_finish [simp]: "args_at (finish b n f) j = args_at f j"
  by (simp add: finish_def args_at_def)

lemma shaped_finish [simp]: "shaped (finish b n f) = shaped f"
  by (simp add: finish_def shaped_def)

lemma shaped_tee_put [simp]: "shaped f \<Longrightarrow> shaped (tee_put fname n f)"
  by (simp add: tee_put_def)

lemma args_at_tee_put:
  "shaped f \<Longrightarrow> n < 16 \<Longrightarrow>
   args_at (tee_put fname n f) j =
     (if j = n then (args_at f n)[0 := Ptr ''tee'', 1 := Ptr ''-a'', 2 := Ptr fname, 3 := Null]
      else args_at f j)"
  by (simp add: tee_put_def args_at_put)

lemma fits_final:
  assumes "binv p b" "num_cmd b < 16" "offset b < 101"
  shows "\<forall>s \<in> set (segments p). slots_used False s \<le> 100"
proof
  fix s assume "s \<in> set (segments p)"
  then obtain j where j: "j < length (segments p)" "s = segments p ! j"
    by (auto simp: in_set_conv_nth)
  show "slots_used False s \<le> 100"
  proof (cases "j < num_cmd b")
    case True
    then show ?thesis using binvD(8) [OF assms(1)] j by simp
  next
    case False
    then have "j = count_list p ''|''" using j binvD(6) [OF assms(1)] by (simp add: length_segments)
    then have "s = last (segments p)" using j by (simp add: segments_nth_last)
    then show ?thesis using binvD(9) [OF assms(1)] assms(3) by simp
  qed
qed

lemma cmd_builder_Inr:
  assumes "cmd_builder backup fname h line = Inr f"
  defines "p \<equiv> strtok_all line"
  shows "shaped f"
    and "num_cmds f = int (count_list p ''|'') + 1 + (if backup \<noteq> 0 then 1 else 0)"
    and "\<And>j. j \<le> count_list p ''|'' \<Longrightarrow>
           argv_of (args_at f j) = Some (stage_argv (segments p ! j))"
    and "backup \<noteq> 0 \<Longrightarrow>
           argv_of (args_at f (count_list p ''|'' + 1)) = Some [''tee'', ''-a'', fname]"
    and "file_in f = target (last_operand (\<lambda>t. t = ''<'') p)"
    and "file_out f = target (last_operand is_out p)"
    and "\<And>opr x. last_operand is_out p = Some (opr, x) \<Longrightarrow>
           overwrite f = (if opr = ''>'' then 1 else 0)"
    and "fits backup p"
    and "h_toks_ok h"
proof -
  have ok: "h_toks_ok h" using assms(1) by (auto simp: cmd_builder_def split: if_splits)
  then show "h_toks_ok h" .
  obtain b where b: "while_tok (start h) p = Inr b"
    using assms(1) cmd_builder_fault [OF ok, of line] unfolding p_def
    by (cases "while_tok (start h) (strtok_all line)") auto
  note i = while_tok_inv [OF b]
  note run = cmd_builder_run [OF ok b [unfolded p_def], of backup fname]
  have lt: "num_cmd b < 16" "offset b < 101"
    using assms(1) run by (auto split: if_splits)
  have lt2: "backup \<noteq> 0 \<Longrightarrow> num_cmd b + 1 < 16"
    using assms(1) run lt by (auto simp: Let_def split: if_splits)
  let ?f1 = "put (num_cmd b) (offset b) Null (fcmdp b)"
  have f: "f = (if backup \<noteq> 0 then finish b (num_cmd b + 1) (tee_put fname (num_cmd b + 1) ?f1)
               else finish b (num_cmd b) ?f1)"
    using assms(1) run lt lt2 by (auto simp: Let_def split: if_splits)
  note sh = binvD(5) [OF i] and nc = binvD(6) [OF i]
  show "shaped f" using sh by (simp add: f)
  show "num_cmds f = int (count_list p ''|'') + 1 + (if backup \<noteq> 0 then 1 else 0)"
    using nc by (simp add: f finish_def)
  have closed: "argv_of ((args_at (fcmdp b) (num_cmd b))[offset b := Null])
                 = Some (stage_argv (last (segments p)))"
    using argv_closed [OF length_args_at [OF sh lt(1)] lt(2) binvD(11) [OF i lt(1)]] .
  have at1: "\<And>j. args_at ?f1 j =
        (if j = num_cmd b then (args_at (fcmdp b) (num_cmd b))[offset b := Null]
         else args_at (fcmdp b) j)"
    using sh lt(1) by (simp add: args_at_put)
  have atf: "\<And>j. j \<le> num_cmd b \<Longrightarrow> args_at f j = args_at ?f1 j"
    using sh lt2 by (simp add: f args_at_tee_put)
  show "argv_of (args_at f j) = Some (stage_argv (segments p ! j))"
    if "j \<le> count_list p ''|''" for j
  proof (cases "j = num_cmd b")
    case True
    then show ?thesis using atf [of j] at1 [of j] closed nc by (simp add: segments_nth_last)
  next
    case False
    then have "j < num_cmd b" using that nc by simp
    then show ?thesis using atf [of j] at1 [of j] binvD(8) [OF i, of j] by simp
  qed
  show "argv_of (args_at f (count_list p ''|'' + 1)) = Some [''tee'', ''-a'', fname]"
    if "backup \<noteq> 0"
  proof -
    have "length (args_at ?f1 (num_cmd b + 1)) = 101"
      using length_args_at [OF shaped_put [OF sh] lt2 [OF that]] .
    then have "argv_of ((args_at ?f1 (num_cmd b + 1))
                 [0 := Ptr ''tee'', 1 := Ptr ''-a'', 2 := Ptr fname, 3 := Null])
               = Some [''tee'', ''-a'', fname]"
      by (rule four_updates)
    then show ?thesis
      using that sh lt2 nc [symmetric] by (simp add: f args_at_tee_put)
  qed
  show "file_in f = target (last_operand (\<lambda>t. t = ''<'') p)"
    using binvD(12) [OF i] by (simp add: f finish_def)
  show "file_out f = target (last_operand is_out p)"
    using binvD(13) [OF i] by (simp add: f finish_def)
  show "overwrite f = (if opr = ''>'' then 1 else 0)"
    if "last_operand is_out p = Some (opr, x)" for opr x
    using binvD(14) [OF i that] by (simp add: f finish_def tee_put_def)
  show "fits backup p"
    unfolding fits_def
    using fits_final [OF i lt] binvD(3) [OF i] lt lt2 nc by auto
qed

lemma cmd_builder_defined:
  assumes "h_toks_ok h" "fits backup (strtok_all line)"
  shows "\<exists>f. cmd_builder backup fname h line = Inr f"
proof -
  obtain b where b: "while_tok (start h) (strtok_all line) = Inr b"
    using while_tok_defined [OF assms(2)] by blast
  note i = while_tok_inv [OF b]
  have "last (segments (strtok_all line)) \<in> set (segments (strtok_all line))" by simp
  then have "slots_used False (last (segments (strtok_all line))) \<le> 100"
    using assms(2) unfolding fits_def by blast
  then have "offset b < 101" using binvD(9) [OF i] by simp
  moreover have "num_cmd b < 16" "backup \<noteq> 0 \<Longrightarrow> num_cmd b + 1 < 16"
    using assms(2) binvD(6) [OF i] by (auto simp: fits_def)
  ultimately show ?thesis
    unfolding cmd_builder_run [OF assms(1) b] by (auto simp: Let_def)
qed

lemma cmd_builder_Inl:
  assumes "cmd_builder backup fname h line = Inl e"
  shows "(\<not> h_toks_ok h \<and> e = Exit EXIT_FAILURE) \<or>
         (h_toks_ok h \<and> \<not> fits backup (strtok_all line) \<and> e = Out_of_bounds)"
proof (cases "h_toks_ok h")
  case False
  then show ?thesis using assms by (simp add: cmd_builder_def)
next
  case True
  have nf: "\<not> fits backup (strtok_all line)"
    using cmd_builder_defined [OF True, of backup line fname] assms by auto
  have "e = Out_of_bounds"
  proof (cases "while_tok (start h) (strtok_all line)")
    case (Inl e')
    then show ?thesis using cmd_builder_fault [OF True Inl, of backup fname] assms by simp
  next
    case (Inr b)
    then show ?thesis using assms unfolding cmd_builder_run [OF True Inr]
      by (auto simp: Let_def split: if_splits)
  qed
  then show ?thesis using True nf by simp
qed

section \<open>The executor: what it forks and when it waits\<close>

text \<open>
  One pass of the for loop forks exactly one child and leaves \<open>fd_in\<close> and descriptor 1
  as the next pass expects them; by induction on the number of passes left, the loop
  forks the children \<open>stage_fork\<close> describes, in order, and never waits.
\<close>

lemma stage_run:
  assumes "file_out cmd \<noteq> Wild" "fd_in st = Some (stage_stdin first i)"
    "fd1 st = (if i = 0 then Inherited_out else Pipe_write (i - 1))" "npipes st = i"
  shows "\<exists>ev st'. stage env cmd i st = (ev, Inr st') \<and>
           forks ev = [stage_fork env cmd first i] \<and> waits ev = [] \<and>
           pid st' = Some i \<and>
           (int i \<noteq> num_cmds cmd - 1 \<longrightarrow>
              fd_in st' = Some (stage_stdin first (Suc i)) \<and> fd1 st' = Pipe_write i \<and>
              npipes st' = Suc i)"
  using assms
  by (cases "file_out cmd")
     (auto simp: stage_def spawn_def forks_def waits_def stage_fork_def stage_stdin_def
        stage_stdout_def dup2_to_def Let_def)

lemma for_stages_run:
  assumes "file_out cmd \<noteq> Wild" "n = nat (num_cmds cmd)" "i \<le> n"
    "fd_in st = Some (stage_stdin first i)"
    "fd1 st = (if i = 0 then Inherited_out else Pipe_write (i - 1))" "npipes st = i"
  shows "\<exists>ev st'. for_stages env cmd [i..<n] st = (ev, Inr st') \<and>
           forks ev = map (stage_fork env cmd first) [i..<n] \<and> waits ev = [] \<and>
           pid st' = (if i < n then Some (n - 1) else pid st)"
  using assms
proof (induction "n - i" arbitrary: i st)
  case 0
  then show ?case by (simp add: forks_def waits_def)
next
  case (Suc k)
  then have lt: "i < n" by simp
  obtain ev1 st1 where s1: "stage env cmd i st = (ev1, Inr st1)"
      "forks ev1 = [stage_fork env cmd first i]" "waits ev1 = []" "pid st1 = Some i"
      "int i \<noteq> num_cmds cmd - 1 \<longrightarrow>
              fd_in st1 = Some (stage_stdin first (Suc i)) \<and> fd1 st1 = Pipe_write i \<and>
              npipes st1 = Suc i"
    using stage_run [OF Suc.prems(1,4,5,6), of env] by blast
  show ?case
  proof (cases "Suc i = n")
    case True
    then have "[i..<n] = [i]" using lt by (simp add: upt_conv_Cons)
    then show ?thesis using s1 lt True by (auto simp: forks_def waits_def)
  next
    case False
    then have lt2: "Suc i < n" using lt by simp
    then have nl: "int i \<noteq> num_cmds cmd - 1" using Suc.prems(2) by auto
    have k: "k = n - Suc i" using Suc.hyps(2) by simp
    obtain ev2 st2 where s2: "for_stages env cmd [Suc i..<n] st1 = (ev2, Inr st2)"
        "forks ev2 = map (stage_fork env cmd first) [Suc i..<n]" "waits ev2 = []"
        "pid st2 = (if Suc i < n then Some (n - 1) else pid st1)"
      using Suc.hyps(1) [OF k Suc.prems(1,2), of st1] lt s1(5) nl by auto
    have "[i..<n] = i # [Suc i..<n]" using lt by (simp add: upt_conv_Cons)
    then show ?thesis using s1 s2 lt lt2 by (auto simp: forks_def waits_def)
  qed
qed

lemma for_stages_no_wait: "waits (fst (for_stages env cmd js st)) = []"
proof (induction js arbitrary: st)
  case Nil
  then show ?case by (simp add: waits_def)
next
  case (Cons j js)
  have w: "waits (fst (stage env cmd j st)) = []"
    by (cases "file_out cmd")
       (auto simp: stage_def spawn_def waits_def Let_def split: prod.splits)
  obtain ev r where s: "stage env cmd j st = (ev, r)" by (cases "stage env cmd j st")
  show ?case
  proof (cases r)
    case (Inl e)
    then show ?thesis using w s by simp
  next
    case (Inr st')
    obtain ev' r' where f: "for_stages env cmd js st' = (ev', r')"
      by (cases "for_stages env cmd js st'")
    have "waits ev' = []" using Cons.IH [of st'] f by simp
    then show ?thesis using w s Inr f by (simp add: waits_def)
  qed
qed

lemma forks_append [simp]: "forks (a @ b) = forks a @ forks b"
  by (simp add: forks_def)

lemma waits_append [simp]: "waits (a @ b) = waits a @ waits b"
  by (simp add: waits_def)

lemma run_pipeline_runs:
  assumes "file_out cmd \<noteq> Wild" "0 < num_cmds cmd"
  shows "\<exists>ev. run_pipeline env cmd bg (Some first) =
            (ev @ (if bg = 0
                   then [Sys_waitpid (nat (num_cmds cmd) - 1)
                           (exit_status env (nat (num_cmds cmd) - 1))]
                   else []), Inr 1) \<and>
           forks ev = map (stage_fork env cmd first) [0..<nat (num_cmds cmd)] \<and>
           waits ev = []"
proof -
  let ?st = "\<lparr>fd_in = Some first, fd0 = Inherited_in, fd1 = Inherited_out, pid = None,
              npipes = 0\<rparr>"
  have "\<exists>ev st'. for_stages env cmd [0..<nat (num_cmds cmd)] ?st = (ev, Inr st') \<and>
           forks ev = map (stage_fork env cmd first) [0..<nat (num_cmds cmd)] \<and> waits ev = [] \<and>
           pid st' = (if 0 < nat (num_cmds cmd) then Some (nat (num_cmds cmd) - 1) else pid ?st)"
    by (rule for_stages_run [OF assms(1) refl]) (simp_all add: stage_stdin_def)
  then obtain ev st' where r: "for_stages env cmd [0..<nat (num_cmds cmd)] ?st = (ev, Inr st')"
      "forks ev = map (stage_fork env cmd first) [0..<nat (num_cmds cmd)]" "waits ev = []"
      "pid st' = Some (nat (num_cmds cmd) - 1)"
    using assms(2) by auto
  let ?restore = "[Sys_dup2 (Some Inherited_in) 0, Sys_dup2 (Some Inherited_out) 1,
                   Sys_close (Some Inherited_in), Sys_close (Some Inherited_out)]"
  have "run_pipeline env cmd bg (Some first) =
          ((ev @ ?restore) @ (if bg = 0
                   then [Sys_waitpid (nat (num_cmds cmd) - 1)
                           (exit_status env (nat (num_cmds cmd) - 1))]
                   else []), Inr 1)"
    using r(1,4) by (simp add: run_pipeline_def)
  moreover have "forks (ev @ ?restore) = map (stage_fork env cmd first) [0..<nat (num_cmds cmd)]"
    using r(2) by (simp add: forks_def)
  moreover have "waits (ev @ ?restore) = []" using r(3) by (simp add: waits_def)
  ultimately show ?thesis by blast
qed

lemma execute_cmd_runs:
  assumes "cmds cmd \<noteq> []" "args (cmds cmd ! 0) \<noteq> []" "args (cmds cmd ! 0) ! 0 = Ptr name"
    and "name \<noteq> ''quit''"
    and "file_in cmd = Null \<or> (\<exists>f. file_in cmd = Ptr f \<and> can_read env f)"
    and "file_out cmd \<noteq> Wild" and "0 < num_cmds cmd"
  shows "\<exists>ev. execute_cmd env cmd bg =
            (ev @ (if bg = 0
                   then [Sys_waitpid (nat (num_cmds cmd) - 1)
                           (exit_status env (nat (num_cmds cmd) - 1))]
                   else []), Inr 1) \<and>
           forks ev = map (stage_fork env cmd (pipeline_stdin cmd)) [0..<nat (num_cmds cmd)] \<and>
           waits ev = []"
proof -
  let ?w = "if bg = 0
            then [Sys_waitpid (nat (num_cmds cmd) - 1) (exit_status env (nat (num_cmds cmd) - 1))]
            else []"
  obtain ev where r: "run_pipeline env cmd bg (Some (pipeline_stdin cmd)) = (ev @ ?w, Inr 1)"
      "forks ev = map (stage_fork env cmd (pipeline_stdin cmd)) [0..<nat (num_cmds cmd)]"
      "waits ev = []"
    using run_pipeline_runs [OF assms(6,7), of env bg "pipeline_stdin cmd"] by blast
  show ?thesis
  proof (cases "file_in cmd = Null")
    case True
    let ?pre = "[Sys_dup Inherited_in, Sys_dup Inherited_out, Sys_dup Inherited_in]"
    have p: "pipeline_stdin cmd = Inherited_in" using True by (simp add: pipeline_stdin_def)
    have "execute_cmd env cmd bg = ((?pre @ ev) @ ?w, Inr 1)"
      using assms(1-4) True r(1) unfolding p by (simp add: execute_cmd_def)
    moreover have "forks (?pre @ ev) = forks ev" "waits (?pre @ ev) = waits ev"
      by (simp_all add: forks_def waits_def)
    ultimately show ?thesis using r(2,3) by metis
  next
    case False
    then obtain f where f: "file_in cmd = Ptr f" "can_read env f" using assms(5) by blast
    let ?pre = "[Sys_dup Inherited_in, Sys_dup Inherited_out, Sys_open (File_read f) True]"
    have p: "pipeline_stdin cmd = File_read f" using f by (simp add: pipeline_stdin_def)
    have "execute_cmd env cmd bg = ((?pre @ ev) @ ?w, Inr 1)"
      using assms(1-4) f r(1) unfolding p by (simp add: execute_cmd_def)
    moreover have "forks (?pre @ ev) = forks ev" "waits (?pre @ ev) = waits ev"
      by (simp_all add: forks_def waits_def)
    ultimately show ?thesis using r(2,3) by metis
  qed
qed

lemma run_pipeline_no_wait: "bg \<noteq> 0 \<Longrightarrow> waits (fst (run_pipeline env cmd bg first)) = []"
proof -
  assume bg: "bg \<noteq> 0"
  let ?st = "\<lparr>fd_in = first, fd0 = Inherited_in, fd1 = Inherited_out, pid = None, npipes = 0\<rparr>"
  obtain ev r where f: "for_stages env cmd [0..<nat (num_cmds cmd)] ?st = (ev, r)"
    by (cases "for_stages env cmd [0..<nat (num_cmds cmd)] ?st")
  have "waits ev = []" using for_stages_no_wait [of env cmd "[0..<nat (num_cmds cmd)]" ?st] f by simp
  then show ?thesis using bg f by (cases r) (simp_all add: run_pipeline_def waits_def)
qed

lemma execute_cmd_no_wait: "bg \<noteq> 0 \<Longrightarrow> waits (fst (execute_cmd env cmd bg)) = []"
proof -
  assume bg: "bg \<noteq> 0"
  have w: "\<And>first. waits (fst (run_pipeline env cmd bg first)) = []"
    using run_pipeline_no_wait [OF bg] .
  have w1: "filter is_wait ev = []" if "run_pipeline env cmd bg first = (ev, r)" for first ev r
    using w [of first] that by (simp add: waits_def)
  show ?thesis
    by (auto simp: execute_cmd_def waits_def Let_def w1 split: cell.splits prod.splits)
qed

lemma execute_cmd_quit:
  "cmds cmd \<noteq> [] \<Longrightarrow> args (cmds cmd ! 0) \<noteq> [] \<Longrightarrow> args (cmds cmd ! 0) ! 0 = Ptr ''quit'' \<Longrightarrow>
   execute_cmd env cmd bg = ([], Inr 0)"
  by (simp add: execute_cmd_def)

lemma execute_cmd_null:
  "cmds cmd \<noteq> [] \<Longrightarrow> args (cmds cmd ! 0) \<noteq> [] \<Longrightarrow> args (cmds cmd ! 0) ! 0 = Null \<Longrightarrow>
   execute_cmd env cmd bg = ([], Inl Bad_pointer)"
  by (simp add: execute_cmd_def)

lemma execute_cmd_input_fails:
  "cmds cmd \<noteq> [] \<Longrightarrow> args (cmds cmd ! 0) \<noteq> [] \<Longrightarrow> args (cmds cmd ! 0) ! 0 = Ptr name \<Longrightarrow>
   name \<noteq> ''quit'' \<Longrightarrow> file_in cmd = Ptr f \<Longrightarrow> \<not> can_read env f \<Longrightarrow>
   execute_cmd env cmd bg =
     ([Sys_dup Inherited_in, Sys_dup Inherited_out, Sys_open (File_read f) False, Perror],
      Inl (Exit EXIT_FAILURE))"
  by (simp add: execute_cmd_def)

lemma get_cmd_sticky: "bg \<noteq> 0 \<Longrightarrow> get_cmd bg raw = Inr (bg1, line) \<Longrightarrow> bg1 \<noteq> 0"
  by (auto simp: get_cmd_def Let_def split: option.splits if_splits)

lemma loop_pass_no_wait:
  assumes "bg \<noteq> 0"
  shows "waits (fst (loop_pass env backup fname n bg raw)) = [] \<and>
         (\<forall>st bg1. snd (loop_pass env backup fname n bg raw) = Inr (st, bg1) \<longrightarrow> bg1 \<noteq> 0)"
proof (cases "get_cmd bg raw")
  case (Inl e)
  then show ?thesis by (simp add: loop_pass_def waits_def)
next
  case (Inr r)
  obtain bg1 line where r: "r = (bg1, line)" by (cases r)
  have b1: "bg1 \<noteq> 0" using get_cmd_sticky [OF assms] Inr r by simp
  show ?thesis
  proof (cases "cmd_builder backup fname (fresh_heap env n) line")
    case (Inl e)
    then show ?thesis using Inr r by (simp add: loop_pass_def waits_def)
  next
    case c: (Inr cmd)
    obtain ev x where e: "execute_cmd env cmd bg1 = (ev, x)" by (cases "execute_cmd env cmd bg1")
    have "waits ev = []" using execute_cmd_no_wait [OF b1, of env cmd] e by simp
    then show ?thesis using Inr r c e b1 by (cases x) (auto simp: loop_pass_def waits_def)
  qed
qed

lemma loop_no_wait:
  "bg \<noteq> 0 \<Longrightarrow> waits (fst (loop env backup fname n bg lines)) = []"
proof (induction lines arbitrary: n bg)
  case Nil
  have "loop_pass env backup fname n bg None = ([Prompt], Inl Uninitialised)"
    by (simp add: loop_pass_def get_cmd_def)
  then show ?case by (simp add: waits_def)
next
  case (Cons raw rest)
  obtain ev r where p: "loop_pass env backup fname n bg (Some raw) = (ev, r)"
    by (cases "loop_pass env backup fname n bg (Some raw)")
  have w: "waits ev = []" using loop_pass_no_wait [OF Cons.prems, of env backup fname n "Some raw"] p
    by simp
  show ?case
  proof (cases r)
    case (Inl e)
    then show ?thesis using p w by simp
  next
    case (Inr sb)
    obtain status bg1 where sb: "sb = (status, bg1)" by (cases sb)
    have b1: "bg1 \<noteq> 0"
      using loop_pass_no_wait [OF Cons.prems, of env backup fname n "Some raw"] p Inr sb by simp
    obtain ev' r' where l: "loop env backup fname (n + 1) bg1 rest = (ev', r')"
      by (cases "loop env backup fname (n + 1) bg1 rest")
    have "waits ev' = []" using Cons.IH [OF b1, of "n + 1"] l by simp
    then show ?thesis using p w Inr sb l by simp
  qed
qed

section \<open>From the parsed line to its execution\<close>

text \<open>
  What \<open>execute_cmd\<close> needs to know about a structure that \<open>cmd_builder\<close> returned, and
  how one pass of \<open>loop\<close> is put together from the two.
\<close>

lemma argv_of_head:
  "argv_of a = Some xs \<Longrightarrow> a \<noteq> [] \<and> a ! 0 = (case xs of [] \<Rightarrow> Null | x # r \<Rightarrow> Ptr x)"
  by (induction a rule: argv_of.induct) auto

lemma stage_argv_head: "\<not> is_redir t \<Longrightarrow> \<exists>r. stage_argv (t # c) = t # r"
  by (cases c) auto

lemma target_not_Wild [simp]: "target r \<noteq> Wild"
  by (auto simp: target_def split: option.splits)

lemma built_shape:
  assumes "cmd_builder backup fname h line = Inr f"
  shows "cmds f \<noteq> []" and "args (cmds f ! 0) \<noteq> []" and "file_out f \<noteq> Wild"
    and "file_in f \<noteq> Wild" and "0 < num_cmds f"
proof -
  note sh = cmd_builder_Inr(1) [OF assms]
  show "cmds f \<noteq> []" using sh by (auto simp: shaped_def)
  have "length (args (cmds f ! 0)) = 101" using sh by (simp add: shaped_def)
  then show "args (cmds f ! 0) \<noteq> []" by auto
  show "file_out f \<noteq> Wild" using cmd_builder_Inr(6) [OF assms] by simp
  show "file_in f \<noteq> Wild" using cmd_builder_Inr(5) [OF assms] by simp
  show "0 < num_cmds f" using cmd_builder_Inr(2) [OF assms] by simp
qed

lemma built_name:
  assumes "cmd_builder backup fname h line = Inr f" "strtok_all line = name # ts"
    "name \<noteq> ''|''" "\<not> is_redir name"
  shows "args (cmds f ! 0) ! 0 = Ptr name"
proof -
  have "argv_of (args_at f 0) = Some (stage_argv (segments (strtok_all line) ! 0))"
    using cmd_builder_Inr(3) [OF assms(1), of 0] by simp
  moreover obtain r where "stage_argv (segments (strtok_all line) ! 0) = name # r"
    using stage_argv_head [OF assms(4)] assms(2,3) by auto
  ultimately show ?thesis using argv_of_head [of "args_at f 0" "name # r"]
    by (simp add: args_at_def)
qed

lemma built_empty_first:
  assumes "cmd_builder backup fname h line = Inr f"
    "strtok_all line = [] \<or> (\<exists>ts. strtok_all line = ''|'' # ts)"
  shows "args (cmds f ! 0) ! 0 = Null"
proof -
  have "argv_of (args_at f 0) = Some (stage_argv (segments (strtok_all line) ! 0))"
    using cmd_builder_Inr(3) [OF assms(1), of 0] by simp
  moreover have "stage_argv (segments (strtok_all line) ! 0) = []"
    using assms(2) by auto
  ultimately show ?thesis using argv_of_head [of "args_at f 0" "[]"]
    by (simp add: args_at_def)
qed

lemma loop_pass_built:
  assumes "get_cmd bg raw = Inr (bg1, line)"
    "cmd_builder backup fname (fresh_heap env n) line = Inr cmd"
    "execute_cmd env cmd bg1 = (ev, r)"
  shows "loop_pass env backup fname n bg raw =
          (case r of Inl e \<Rightarrow> (prompt_events backup line @ ev, Inl e)
           | Inr s \<Rightarrow> (prompt_events backup line @ ev @ [Free], Inr (s, bg1)))"
  using assms by (cases r) (simp_all add: loop_pass_def prompt_events_def)

lemma child_argv_built:
  assumes "cmd_builder backup fname h line = Inr f" "j \<le> count_list (strtok_all line) ''|''"
  shows "child_argv f j = Some (stage_argv (segments (strtok_all line) ! j))"
proof -
  have "count_list (strtok_all line) ''|'' \<le> 15"
    using cmd_builder_Inr(8) [OF assms(1)] by (simp add: fits_def split: if_splits)
  then have "j < length (cmds f)" using cmd_builder_Inr(1) [OF assms(1)] assms(2)
    by (simp add: shaped_def)
  then show ?thesis using cmd_builder_Inr(3) [OF assms] by (simp add: child_argv_def args_at_def)
qed

lemma child_argv_tee:
  assumes "cmd_builder backup fname h line = Inr f" "backup \<noteq> 0"
  shows "child_argv f (count_list (strtok_all line) ''|'' + 1) = Some [''tee'', ''-a'', fname]"
proof -
  have "count_list (strtok_all line) ''|'' + 1 \<le> 15"
    using cmd_builder_Inr(8) [OF assms(1)] assms(2) by (simp add: fits_def)
  then have "count_list (strtok_all line) ''|'' + 1 < length (cmds f)"
    using cmd_builder_Inr(1) [OF assms(1)] by (simp add: shaped_def)
  then show ?thesis using cmd_builder_Inr(4) [OF assms]
    by (simp add: child_argv_def args_at_def)
qed

lemma built_file_in:
  assumes "cmd_builder backup fname h line = Inr f"
    "last_operand (\<lambda>t. t = ''<'') (strtok_all line) = Some (opr, x)"
  shows "file_in f = Ptr x"
  using cmd_builder_Inr(5) [OF assms(1)] assms(2) by (simp add: target_def)

lemma built_runs:
  assumes c: "cmd_builder backup fname h line = Inr f"
    and nm: "strtok_all line = name # ts" "name \<noteq> ''|''" "\<not> is_redir name" "name \<noteq> ''quit''"
    and rd: "\<And>opr x. last_operand (\<lambda>t. t = ''<'') (strtok_all line) = Some (opr, x)
                \<Longrightarrow> can_read env x"
  shows "snd (execute_cmd env f bg_flag) = Inr 1"
    and "forks (fst (execute_cmd env f bg_flag))
           = map (stage_fork env f (pipeline_stdin f)) [0..<nat (num_cmds f)]"
    and "waits (fst (execute_cmd env f bg_flag))
           = (if bg_flag = 0
              then [Sys_waitpid (nat (num_cmds f) - 1) (exit_status env (nat (num_cmds f) - 1))]
              else [])"
proof -
  have fi: "file_in f = Null \<or> (\<exists>x. file_in f = Ptr x \<and> can_read env x)"
    using cmd_builder_Inr(5) [OF c] rd
    by (cases "last_operand (\<lambda>t. t = ''<'') (strtok_all line)") (auto simp: target_def)
  obtain ev where r: "execute_cmd env f bg_flag =
            (ev @ (if bg_flag = 0
                   then [Sys_waitpid (nat (num_cmds f) - 1)
                           (exit_status env (nat (num_cmds f) - 1))]
                   else []), Inr 1)"
      "forks ev = map (stage_fork env f (pipeline_stdin f)) [0..<nat (num_cmds f)]"
      "waits ev = []"
    using execute_cmd_runs [OF built_shape(1,2) [OF c] built_name [OF c nm(1,2,3)] nm(4) fi
            built_shape(3,5) [OF c], of bg_flag]
    by blast
  show "snd (execute_cmd env f bg_flag) = Inr 1" using r(1) by simp
  show "forks (fst (execute_cmd env f bg_flag))
           = map (stage_fork env f (pipeline_stdin f)) [0..<nat (num_cmds f)]"
    using r(1,2) by (simp add: forks_def)
  show "waits (fst (execute_cmd env f bg_flag))
           = (if bg_flag = 0
              then [Sys_waitpid (nat (num_cmds f) - 1) (exit_status env (nat (num_cmds f) - 1))]
              else [])"
    using r(1,3) by (simp add: waits_def)
qed

lemma built_num_cmds:
  assumes "cmd_builder backup fname h line = Inr f"
  shows "nat (num_cmds f) = count_list (strtok_all line) ''|'' + 1 + (if backup \<noteq> 0 then 1 else 0)"
proof -
  have "num_cmds f = int (count_list (strtok_all line) ''|'' + 1 + (if backup \<noteq> 0 then 1 else 0))"
    using cmd_builder_Inr(2) [OF assms] by simp
  then show ?thesis by (simp only: nat_int)
qed

lemma last_operand_Cons_Some:
  "last_operand P p = Some r \<Longrightarrow> last_operand P (a # p) = Some r"
  by (cases p) auto

lemma last_operand_at:
  assumes "P t" "x \<noteq> ''|''" "last_operand P (x # post) = None"
  shows "last_operand P (pre @ t # x # post) = Some (t, x)"
proof (induction pre)
  case Nil
  show ?case using assms by simp
next
  case (Cons a pre)
  show ?case using last_operand_Cons_Some [OF Cons.IH] by simp
qed

lemma stage_argv_stops:
  "is_redir opr \<Longrightarrow> \<exists>m \<le> length pre. stage_argv (pre @ opr # x # post) = take m pre"
proof (induction pre)
  case Nil
  then show ?case by simp
next
  case (Cons a pre)
  then obtain m where m: "m \<le> length pre" "stage_argv (pre @ opr # x # post) = take m pre"
    by blast
  obtain b rest where br: "pre @ opr # x # post = b # rest" by (cases pre) auto
  show ?case
  proof (cases "is_redir a")
    case True
    then have "stage_argv ((a # pre) @ opr # x # post) = take 0 (a # pre)" using br by simp
    then show ?thesis by blast
  next
    case False
    then have "stage_argv ((a # pre) @ opr # x # post) = take (Suc m) (a # pre)"
      using br m(2) by simp
    then show ?thesis using m(1) by (metis Suc_le_mono length_Cons)
  qed
qed

lemma stage_fork_explicit:
  assumes "0 < num_cmds f" "\<forall>x. file_out f = Ptr x \<longrightarrow> can_write env x"
  shows "map (stage_fork env f (pipeline_stdin f)) [0..<nat (num_cmds f)] =
         map (\<lambda>j. Sys_fork j
                (if j = 0 then (case file_in f of Ptr x \<Rightarrow> File_read x | _ \<Rightarrow> Inherited_in)
                 else Pipe_read (j - 1))
                (if j = nat (num_cmds f) - 1
                 then (case file_out f of
                         Ptr x \<Rightarrow> if overwrite f \<noteq> 0 then File_trunc x else File_append x
                       | _ \<Rightarrow> Inherited_out)
                 else Pipe_write j)
                (child_argv f j))
             [0..<nat (num_cmds f)]"
proof (rule map_cong [OF refl])
  fix j assume "j \<in> set [0..<nat (num_cmds f)]"
  then have j: "j < nat (num_cmds f)" by simp
  have e: "(int j = num_cmds f - 1) = (j = nat (num_cmds f) - 1)" using assms(1) j by auto
  show "stage_fork env f (pipeline_stdin f) j =
         Sys_fork j
                (if j = 0 then (case file_in f of Ptr x \<Rightarrow> File_read x | _ \<Rightarrow> Inherited_in)
                 else Pipe_read (j - 1))
                (if j = nat (num_cmds f) - 1
                 then (case file_out f of
                         Ptr x \<Rightarrow> if overwrite f \<noteq> 0 then File_trunc x else File_append x
                       | _ \<Rightarrow> Inherited_out)
                 else Pipe_write j)
                (child_argv f j)"
    using assms(2)
    by (auto simp: stage_fork_def stage_stdin_def stage_stdout_def pipeline_stdin_def e
             split: cell.splits)
qed

lemma stage_cong:
  assumes "num_cmds f1 = num_cmds f2" "child_argv f1 j = child_argv f2 j"
    "file_out f1 = file_out f2" "file_out f1 \<noteq> Null \<longrightarrow> overwrite f1 = overwrite f2"
  shows "stage env f1 j st = stage env f2 j st"
  using assms by (cases "file_out f2") (simp_all add: stage_def spawn_def Let_def)

lemma for_stages_cong:
  assumes "num_cmds f1 = num_cmds f2" "\<forall>j \<in> set js. child_argv f1 j = child_argv f2 j"
    "file_out f1 = file_out f2" "file_out f1 \<noteq> Null \<longrightarrow> overwrite f1 = overwrite f2"
  shows "for_stages env f1 js st = for_stages env f2 js st"
  using assms(2)
proof (induction js arbitrary: st)
  case Nil
  show ?case by simp
next
  case (Cons j js)
  have s: "stage env f1 j st = stage env f2 j st"
    using stage_cong [OF assms(1) _ assms(3,4)] Cons.prems by simp
  show ?case using Cons.IH Cons.prems by (simp add: s)
qed

lemma execute_cmd_cong:
  assumes "num_cmds f1 = num_cmds f2"
    "\<forall>j < nat (num_cmds f1). child_argv f1 j = child_argv f2 j"
    "file_in f1 = file_in f2"
    "file_out f1 = file_out f2" "file_out f1 \<noteq> Null \<longrightarrow> overwrite f1 = overwrite f2"
    "cmds f1 \<noteq> []" "args (cmds f1 ! 0) \<noteq> []" "cmds f2 \<noteq> []" "args (cmds f2 ! 0) \<noteq> []"
    "args (cmds f1 ! 0) ! 0 = args (cmds f2 ! 0) ! 0"
  shows "execute_cmd env f1 bg_flag = execute_cmd env f2 bg_flag"
proof -
  have fs: "\<And>st. for_stages env f1 [0..<nat (num_cmds f1)] st
                 = for_stages env f2 [0..<nat (num_cmds f1)] st"
    using for_stages_cong [OF assms(1) _ assms(4,5)] assms(2) by simp
  have rp: "\<And>first. run_pipeline env f1 bg_flag first = run_pipeline env f2 bg_flag first"
    using fs assms(1) by (simp add: run_pipeline_def)
  show ?thesis
    unfolding execute_cmd_def rp assms(3) assms(10) using assms(6-9) by simp
qed

lemma built_first_slot:
  assumes "cmd_builder backup fname h line = Inr f"
  shows "args (cmds f ! 0) ! 0 =
           (case stage_argv (segments (strtok_all line) ! 0) of [] \<Rightarrow> Null | x # r \<Rightarrow> Ptr x)"
  using cmd_builder_Inr(3) [OF assms, of 0] argv_of_head [of "args_at f 0"]
  by (simp add: args_at_def)

lemma built_child_argv_all:
  assumes "cmd_builder backup fname h1 line = Inr f1" "cmd_builder backup fname h2 line = Inr f2"
    "j < nat (num_cmds f1)"
  shows "child_argv f1 j = child_argv f2 j"
proof (cases "j \<le> count_list (strtok_all line) ''|''")
  case True
  then show ?thesis using child_argv_built [OF assms(1) True] child_argv_built [OF assms(2) True]
    by simp
next
  case False
  then have "backup \<noteq> 0 \<and> j = count_list (strtok_all line) ''|'' + 1"
    using assms(3) built_num_cmds [OF assms(1)] by (auto split: if_splits)
  then show ?thesis using child_argv_tee [OF assms(1)] child_argv_tee [OF assms(2)] by simp
qed

section \<open>Worked examples\<close>

text \<open>The vocabulary on small lines.\<close>

lemma vocabulary_examples:
  "strtok_all ''  ls   -l |wc '' = [''ls'', ''-l'', ''|wc'']"
  "segments [''a'', ''|'', ''|'', ''b'', ''c'', ''|''] = [[''a''], [], [''b'', ''c''], []]"
  "stage_argv [''cat'', ''-n'', ''<'', ''f'', ''x''] = [''cat'', ''-n'']"
  "stage_argv [''cat'', ''>''] = [''cat'', ''>'']"
  "slots_used False [''cat'', ''-n'', ''<'', ''f'', ''x''] = 4"
  "last_operand is_out [''a'', ''>'', ''f'', ''|'', ''b'', ''>>'', ''g'', ''>'', ''|'']
     = Some (''>>'', ''g'')"
  by code_simp+

text \<open>
  The three parses that the spec lists among its testable properties: \<open>a | b | c\<close>,
  \<open>cat < in.txt > out.txt\<close> and \<open>sleep 5 &\<close>, the last one as \<open>get_cmd\<close> hands it on.
\<close>

lemma parse_examples:
  "map_sum id (\<lambda>f. (num_cmds f, map (child_argv f) [0, 1, 2], file_in f, file_out f))
     (cmd_builder 0 ''log'' heap0 ''a | b | c'')
     = Inr (3, [Some [''a''], Some [''b''], Some [''c'']], Null, Null)"
  "map_sum id (\<lambda>f. (num_cmds f, child_argv f 0, file_in f, file_out f, overwrite f))
     (cmd_builder 0 ''log'' heap0 ''cat < in.txt > out.txt'')
     = Inr (1, Some [''cat''], Ptr ''in.txt'', Ptr ''out.txt'', 1)"
  "get_cmd 0 (Some ''sleep 5 &\<newline>'') = Inr (1, ''sleep 5 '')"
  "map_sum id (\<lambda>f. (num_cmds f, child_argv f 0)) (cmd_builder 0 ''log'' heap0 ''sleep 5 '')
     = Inr (1, Some [''sleep'', ''5''])"
  by code_simp+

text \<open>
  Arguments written after a redirection stay in the array behind the NULL and are not
  passed on: \<open>cat > out.txt x\<close> runs \<open>cat\<close> without \<open>x\<close>.
\<close>

lemma arguments_after_redirection:
  "map_sum id (\<lambda>f. (child_argv f 0, take 4 (args (cmds f ! 0)), file_out f))
     (cmd_builder 0 ''log'' heap0 ''cat > out.txt x'')
     = Inr (Some [''cat''], [Ptr ''cat'', Null, Ptr ''x'', Null], Ptr ''out.txt'')"
  by code_simp

section \<open>Claims\<close>

subsection \<open>C1\<close>

text \<open>
  C1, as the code has it. For a line whose tokens fit the fixed arrays, \<open>cmd_builder\<close> returns a
  pipeline whose \<open>num_cmds\<close> is the number k of \<open>|\<close> tokens plus one when the transcript
  is off, and k plus two (the added \<open>tee\<close> command) when it is on.
\<close>

theorem C1_stage_count:
  assumes "h_toks_ok h" and "fits backup (strtok_all line)"
  shows "\<exists>f. cmd_builder backup fname h line = Inr f \<and>
             num_cmds f = int (count_list (strtok_all line) ''|'') + 1
                          + (if backup \<noteq> 0 then 1 else 0)"
proof -
  obtain f where f: "cmd_builder backup fname h line = Inr f"
    using cmd_builder_defined [OF assms] by blast
  show ?thesis using f cmd_builder_Inr(2) [OF f] by simp
qed

theorem C1_stage_count_witness:
  "h_toks_ok heap0 \<and> fits 0 (strtok_all ''ls -l | wc'') \<and>
   (\<exists>f. cmd_builder 0 ''log'' heap0 ''ls -l | wc'' = Inr f \<and> num_cmds f = 2)"
proof -
  have a: "h_toks_ok heap0" by (simp add: heap0_def)
  have t: "strtok_all ''ls -l | wc'' = [''ls'', ''-l'', ''|'', ''wc'']" by code_simp
  have b: "fits 0 (strtok_all ''ls -l | wc'')" unfolding t by code_simp
  show ?thesis using a b C1_stage_count [OF a b, of "''log''"] unfolding t by simp
qed

text \<open>
  Where the sentence of the spec fails: with the transcript on, the line \<open>ls\<close> has no
  \<open>|\<close> and \<open>cmd_builder\<close> returns two commands, \<open>ls\<close> and \<open>tee -a log\<close>.
\<close>

theorem C1_counterexample:
  "map_sum id num_cmds (cmd_builder 1 ''log'' heap0 ''ls'') = Inr 2 \<and>
   map_sum id (\<lambda>f. map (child_argv f) [0, 1]) (cmd_builder 1 ''log'' heap0 ''ls'')
     = Inr [Some [''ls''], Some [''tee'', ''-a'', ''log'']] \<and>
   count_list (strtok_all ''ls'') ''|'' = 0"
  by code_simp

subsection \<open>C2\<close>

text \<open>
  C2, as the code has it. When the input file of a pipeline cannot be opened, \<open>execute_cmd\<close> saves the
  two descriptors, fails in \<open>open\<close>, calls \<open>perror\<close> and then \<open>exit(EXIT_FAILURE)\<close>: no
  pipe is created and nothing is forked, and the whole interpreter ends there, so \<open>loop\<close>
  reads no further line.
\<close>

theorem C2_input_open_failure:
  "(cmds cmd \<noteq> [] \<and> args (cmds cmd ! 0) \<noteq> [] \<and> args (cmds cmd ! 0) ! 0 = Ptr name \<and>
    name \<noteq> ''quit'' \<and> file_in cmd = Ptr f \<and> \<not> can_read env f
      \<longrightarrow> execute_cmd env cmd bg_flag =
            ([Sys_dup Inherited_in, Sys_dup Inherited_out, Sys_open (File_read f) False, Perror],
             Inl (Exit EXIT_FAILURE))) \<and>
   (get_cmd bg (Some raw) = Inr (bg1, line) \<and> h_toks_ok (fresh_heap env n) \<and>
    fits backup (strtok_all line) \<and> strtok_all line = name # ts \<and> name \<noteq> ''|'' \<and>
    \<not> is_redir name \<and> name \<noteq> ''quit'' \<and>
    last_operand (\<lambda>t. t = ''<'') (strtok_all line) = Some (opr, f) \<and> \<not> can_read env f
      \<longrightarrow> loop env backup fname n bg (raw # rest) =
            (prompt_events backup line @
             [Sys_dup Inherited_in, Sys_dup Inherited_out, Sys_open (File_read f) False, Perror],
             Inl (Exit EXIT_FAILURE)))"
proof (intro conjI impI)
  assume "cmds cmd \<noteq> [] \<and> args (cmds cmd ! 0) \<noteq> [] \<and> args (cmds cmd ! 0) ! 0 = Ptr name \<and>
    name \<noteq> ''quit'' \<and> file_in cmd = Ptr f \<and> \<not> can_read env f"
  then show "execute_cmd env cmd bg_flag =
            ([Sys_dup Inherited_in, Sys_dup Inherited_out, Sys_open (File_read f) False, Perror],
             Inl (Exit EXIT_FAILURE))"
    using execute_cmd_input_fails by blast
next
  assume a: "get_cmd bg (Some raw) = Inr (bg1, line) \<and> h_toks_ok (fresh_heap env n) \<and>
    fits backup (strtok_all line) \<and> strtok_all line = name # ts \<and> name \<noteq> ''|'' \<and>
    \<not> is_redir name \<and> name \<noteq> ''quit'' \<and>
    last_operand (\<lambda>t. t = ''<'') (strtok_all line) = Some (opr, f) \<and> \<not> can_read env f"
  then obtain c where c: "cmd_builder backup fname (fresh_heap env n) line = Inr c"
    using cmd_builder_defined by blast
  have nm: "args (cmds c ! 0) ! 0 = Ptr name" using built_name [OF c] a by blast
  have fi: "file_in c = Ptr f" using built_file_in [OF c] a by blast
  have e: "execute_cmd env c bg1 =
            ([Sys_dup Inherited_in, Sys_dup Inherited_out, Sys_open (File_read f) False, Perror],
             Inl (Exit EXIT_FAILURE))"
    using execute_cmd_input_fails [OF built_shape(1,2) [OF c] nm _ fi] a by blast
  have "loop_pass env backup fname n bg (Some raw) =
          (prompt_events backup line @
             [Sys_dup Inherited_in, Sys_dup Inherited_out, Sys_open (File_read f) False, Perror],
             Inl (Exit EXIT_FAILURE))"
    using loop_pass_built [OF _ c e] a by simp
  then show "loop env backup fname n bg (raw # rest) =
            (prompt_events backup line @
             [Sys_dup Inherited_in, Sys_dup Inherited_out, Sys_open (File_read f) False, Perror],
             Inl (Exit EXIT_FAILURE))"
    by simp
qed

theorem C2_input_open_failure_witness:
  "cmds cat_missing \<noteq> [] \<and> args (cmds cat_missing ! 0) \<noteq> [] \<and>
   args (cmds cat_missing ! 0) ! 0 = Ptr ''cat'' \<and> ''cat'' \<noteq> ''quit'' \<and>
   file_in cat_missing = Ptr ''missing'' \<and> \<not> can_read os0 ''missing'' \<and>
   execute_cmd os0 cat_missing 0 =
     ([Sys_dup Inherited_in, Sys_dup Inherited_out, Sys_open (File_read ''missing'') False, Perror],
      Inl (Exit 1)) \<and>
   get_cmd 0 (Some ''cat < missing | wc\<newline>'') = Inr (0, ''cat < missing | wc'') \<and>
   h_toks_ok (fresh_heap os0 0) \<and> fits 0 (strtok_all ''cat < missing | wc'') \<and>
   strtok_all ''cat < missing | wc'' = [''cat'', ''<'', ''missing'', ''|'', ''wc''] \<and>
   last_operand (\<lambda>t. t = ''<'') (strtok_all ''cat < missing | wc'') = Some (''<'', ''missing'') \<and>
   loop os0 0 ''log'' 0 0 [''cat < missing | wc\<newline>'', ''ls\<newline>''] =
     ([Prompt, Sys_dup Inherited_in, Sys_dup Inherited_out,
       Sys_open (File_read ''missing'') False, Perror],
      Inl (Exit 1))"
proof -
  have h1: "cmds cat_missing \<noteq> [] \<and> args (cmds cat_missing ! 0) \<noteq> [] \<and>
     args (cmds cat_missing ! 0) ! 0 = Ptr ''cat'' \<and> ''cat'' \<noteq> ''quit'' \<and>
     file_in cat_missing = Ptr ''missing'' \<and> \<not> can_read os0 ''missing''"
    by (simp add: cat_missing_def pipeline_of_def os0_def)
  have t: "strtok_all ''cat < missing | wc'' = [''cat'', ''<'', ''missing'', ''|'', ''wc'']"
    by code_simp
  have h2: "get_cmd 0 (Some ''cat < missing | wc\<newline>'') = Inr (0, ''cat < missing | wc'') \<and>
     h_toks_ok (fresh_heap os0 0) \<and> fits 0 (strtok_all ''cat < missing | wc'') \<and>
     strtok_all ''cat < missing | wc'' = ''cat'' # [''<'', ''missing'', ''|'', ''wc''] \<and>
     ''cat'' \<noteq> ''|'' \<and> \<not> is_redir ''cat'' \<and> ''cat'' \<noteq> ''quit'' \<and>
     last_operand (\<lambda>t. t = ''<'') (strtok_all ''cat < missing | wc'') = Some (''<'', ''missing'') \<and>
     \<not> can_read os0 ''missing''"
    unfolding t by code_simp
  have p: "prompt_events 0 ''cat < missing | wc'' = [Prompt]" "EXIT_FAILURE = 1"
    by (simp_all add: prompt_events_def EXIT_FAILURE_def)
  show ?thesis
    using C2_input_open_failure [of cat_missing "''cat''" "''missing''" os0 0 0
            "''cat < missing | wc\<newline>''" 0 "''cat < missing | wc''" 0 0
            "[''<'', ''missing'', ''|'', ''wc'']" "''<''" "''log''" "[''ls\<newline>'']"]
      h1 h2 p t
    by simp
qed

text \<open>
  Where the sentence of the spec fails: with an input file that cannot be opened the interpreter
  ends (the second line is never read); with an output file that cannot be opened
  (\<open>os0\<close> lets only \<open>out.txt\<close> be written) both commands are forked, nothing is reported,
  and the loop goes on.
\<close>

theorem C2_counterexample:
  "loop os0 0 ''log'' 0 0 [''cat < missing\<newline>'', ''ls\<newline>''] =
     ([Prompt, Sys_dup Inherited_in, Sys_dup Inherited_out,
       Sys_open (File_read ''missing'') False, Perror],
      Inl (Exit 1)) \<and>
   forks (fst (loop os0 0 ''log'' 0 0 [''ls | wc > nodir/out\<newline>'', ''quit\<newline>''])) =
     [Sys_fork 0 Inherited_in (Pipe_write 0) (Some [''ls'']),
      Sys_fork 1 (Pipe_read 0) (Pipe_write 0) (Some [''wc''])] \<and>
   filter (\<lambda>e. e = Perror) (fst (loop os0 0 ''log'' 0 0 [''ls | wc > nodir/out\<newline>'', ''quit\<newline>''])) = [] \<and>
   filter (\<lambda>e. e = Sys_open (File_trunc ''nodir/out'') False)
     (fst (loop os0 0 ''log'' 0 0 [''ls | wc > nodir/out\<newline>'', ''quit\<newline>'']))
     = [Sys_open (File_trunc ''nodir/out'') False] \<and>
   snd (loop os0 0 ''log'' 0 0 [''ls | wc > nodir/out\<newline>'', ''quit\<newline>'']) = Inr ()"
  by code_simp

subsection \<open>C3\<close>

text \<open>
  C3, as the code has it. A pipeline that \<open>execute_cmd\<close> runs (a first program name other than \<open>quit\<close>,
  an input file that opens if there is one, at least one command) forks all its commands;
  with \<open>bg_flag = 0\<close> the last call is \<open>waitpid\<close> for the child of the last command and
  there is no other wait; with \<open>bg_flag \<noteq> 0\<close> there is no wait at all. In both cases
  \<open>execute_cmd\<close> returns 1, whatever status the last child ended with.
\<close>

theorem C3_wait_policy:
  assumes "cmds cmd \<noteq> []" "args (cmds cmd ! 0) \<noteq> []" "args (cmds cmd ! 0) ! 0 = Ptr name"
    and "name \<noteq> ''quit''"
    and "file_in cmd = Null \<or> (\<exists>f. file_in cmd = Ptr f \<and> can_read env f)"
    and "file_out cmd \<noteq> Wild" and "0 < num_cmds cmd"
  shows "snd (execute_cmd env cmd bg_flag) = Inr 1 \<and>
         forks (fst (execute_cmd env cmd bg_flag))
           = map (stage_fork env cmd (pipeline_stdin cmd)) [0..<nat (num_cmds cmd)] \<and>
         (bg_flag = 0 \<longrightarrow>
            fst (execute_cmd env cmd bg_flag) \<noteq> [] \<and>
            last (fst (execute_cmd env cmd bg_flag))
              = Sys_waitpid (nat (num_cmds cmd) - 1) (exit_status env (nat (num_cmds cmd) - 1)) \<and>
            waits (fst (execute_cmd env cmd bg_flag))
              = [Sys_waitpid (nat (num_cmds cmd) - 1) (exit_status env (nat (num_cmds cmd) - 1))]) \<and>
         (bg_flag \<noteq> 0 \<longrightarrow> waits (fst (execute_cmd env cmd bg_flag)) = [])"
proof -
  let ?w = "Sys_waitpid (nat (num_cmds cmd) - 1) (exit_status env (nat (num_cmds cmd) - 1))"
  obtain ev where r: "execute_cmd env cmd bg_flag = (ev @ (if bg_flag = 0 then [?w] else []), Inr 1)"
      "forks ev = map (stage_fork env cmd (pipeline_stdin cmd)) [0..<nat (num_cmds cmd)]"
      "waits ev = []"
    using execute_cmd_runs [OF assms, of bg_flag] by blast
  show ?thesis
  proof (cases "bg_flag = 0")
    case True
    then have "execute_cmd env cmd bg_flag = (ev @ [?w], Inr 1)" using r(1) by simp
    then show ?thesis using True r(2,3) by (simp add: forks_def waits_def)
  next
    case False
    then have "execute_cmd env cmd bg_flag = (ev, Inr 1)" using r(1) by simp
    then show ?thesis using False r(2,3) by simp
  qed
qed

theorem C3_wait_policy_witness:
  "cmds echo_tr \<noteq> [] \<and> args (cmds echo_tr ! 0) \<noteq> [] \<and>
   args (cmds echo_tr ! 0) ! 0 = Ptr ''echo'' \<and> ''echo'' \<noteq> ''quit'' \<and>
   file_in echo_tr = Null \<and> file_out echo_tr \<noteq> Wild \<and> 0 < num_cmds echo_tr \<and>
   snd (execute_cmd os0 echo_tr 0) = Inr 1 \<and>
   forks (fst (execute_cmd os0 echo_tr 0))
     = [Sys_fork 0 Inherited_in (Pipe_write 0) (Some [''echo'', ''hi'']),
        Sys_fork 1 (Pipe_read 0) Inherited_out (Some [''tr'', ''a-z'', ''A-Z''])] \<and>
   last (fst (execute_cmd os0 echo_tr 0)) = Sys_waitpid 1 0 \<and>
   waits (fst (execute_cmd os0 echo_tr 0)) = [Sys_waitpid 1 0] \<and>
   waits (fst (execute_cmd os0 echo_tr 1)) = []"
proof -
  have h: "cmds echo_tr \<noteq> []" "args (cmds echo_tr ! 0) \<noteq> []"
    "args (cmds echo_tr ! 0) ! 0 = Ptr ''echo''"
    "''echo'' \<noteq> ''quit''"
    "file_in echo_tr = Null \<or> (\<exists>f. file_in echo_tr = Ptr f \<and> can_read os0 f)"
    "file_out echo_tr \<noteq> Wild" "0 < num_cmds echo_tr"
    by (simp_all add: echo_tr_def pipeline_of_def)
  have n: "nat (num_cmds echo_tr) - 1 = 1" "exit_status os0 1 = 0" "file_in echo_tr = Null"
    by (simp_all add: echo_tr_def pipeline_of_def os0_def)
  have m: "map (stage_fork os0 echo_tr (pipeline_stdin echo_tr)) [0..<nat (num_cmds echo_tr)]
     = [Sys_fork 0 Inherited_in (Pipe_write 0) (Some [''echo'', ''hi'']),
        Sys_fork 1 (Pipe_read 0) Inherited_out (Some [''tr'', ''a-z'', ''A-Z''])]"
    by code_simp
  show ?thesis
    using h C3_wait_policy [OF h, of 0] C3_wait_policy [OF h, of 1] n m by simp
qed

text \<open>
  Where the sentence of the spec fails: the status that \<open>waitpid\<close> delivers is not what
  \<open>execute_cmd\<close> returns. On the line \<open>ls\<close> the child ends with status 0 and the
  foreground call returns 1 to \<open>loop\<close>; it returns 1 as well when the child's status is
  256 (exit code 1).
\<close>

theorem C3_counterexample:
  "loop_pass os0 0 ''log'' 0 0 (Some ''ls\<newline>'')
     = ([Prompt,
         Sys_dup Inherited_in, Sys_dup Inherited_out, Sys_dup Inherited_in,
         Sys_dup2 (Some Inherited_in) 0, Sys_close (Some Inherited_in),
         Sys_dup Inherited_out, Sys_dup2 (Some Inherited_out) 1, Sys_close (Some Inherited_out),
         Sys_fork 0 Inherited_in Inherited_out (Some [''ls'']),
         Sys_dup2 (Some Inherited_in) 0, Sys_dup2 (Some Inherited_out) 1,
         Sys_close (Some Inherited_in), Sys_close (Some Inherited_out),
         Sys_waitpid 0 0, Free],
        Inr (1, 0)) \<and>
   exit_status os0 0 = 0 \<and>
   snd (execute_cmd os0 (pipeline_of [[''ls'']] Null Null 0) 0) = Inr 1 \<and>
   snd (execute_cmd (os0\<lparr>exit_status := (\<lambda>_. 256)\<rparr>) (pipeline_of [[''ls'']] Null Null 0) 0)
     = Inr 1"
  by code_simp

subsection \<open>C4\<close>

text \<open>
  C4, as the code has it. The parser has no syntax errors. Take a line that fits the
  arrays of \<open>cmd_builder\<close> (the allocation of \<open>toks\<close> succeeding), that starts with a
  program name (a token that is neither \<open>|\<close> nor a redirection operator) other than
  \<open>quit\<close>, whose input file, if it has one, can be read, and that has an empty stage (two
  \<open>|\<close> in a row, or a \<open>|\<close> at the end). The line is not rejected. With k tokens \<open>|\<close>
  its pipeline has k + 1 stages, and k + 2 with the transcript on, whose \<open>tee\<close> is one
  more stage; the empty stage is a command with an empty argument vector (\<open>args[0]\<close> is
  NULL); \<open>execute_cmd\<close> forks one child for every stage, the empty one included, and
  returns 1.
\<close>

theorem C4_empty_stage_is_forked:
  assumes "h_toks_ok h" and "fits backup (strtok_all line)"
    and "j \<le> count_list (strtok_all line) ''|''" and "segments (strtok_all line) ! j = []"
    and "strtok_all line = name # ts" and "name \<noteq> ''|''" and "\<not> is_redir name"
    and "name \<noteq> ''quit''"
    and "\<forall>opr x. last_operand (\<lambda>t. t = ''<'') (strtok_all line) = Some (opr, x)
           \<longrightarrow> can_read env x"
  shows "\<exists>f. cmd_builder backup fname h line = Inr f \<and>
           num_cmds f = int (count_list (strtok_all line) ''|'') + 1
                        + (if backup \<noteq> 0 then 1 else 0) \<and>
           child_argv f j = Some [] \<and>
           snd (execute_cmd env f bg_flag) = Inr 1 \<and>
           forks (fst (execute_cmd env f bg_flag))
             = map (stage_fork env f (pipeline_stdin f)) [0..<nat (num_cmds f)] \<and>
           stage_fork env f (pipeline_stdin f) j \<in> set (forks (fst (execute_cmd env f bg_flag)))"
proof -
  obtain f where f: "cmd_builder backup fname h line = Inr f"
    using cmd_builder_defined [OF assms(1,2)] by blast
  have rd: "\<And>opr x. last_operand (\<lambda>t. t = ''<'') (strtok_all line) = Some (opr, x)
                \<Longrightarrow> can_read env x"
    using assms(9) by blast
  note n = cmd_builder_Inr(2) [OF f]
  have fk: "forks (fst (execute_cmd env f bg_flag))
             = map (stage_fork env f (pipeline_stdin f)) [0..<nat (num_cmds f)]"
    using built_runs(2) [OF f assms(5,6,7,8) rd, where bg_flag = bg_flag] by simp
  have "j < nat (num_cmds f)" using built_num_cmds [OF f] assms(3) by simp
  then have "stage_fork env f (pipeline_stdin f) j
               \<in> set (forks (fst (execute_cmd env f bg_flag)))"
    unfolding fk by simp
  then show ?thesis
    using f n child_argv_built [OF f assms(3)] assms(4) fk
      built_runs(1) [OF f assms(5,6,7,8) rd, where bg_flag = bg_flag]
    by simp
qed

theorem C4_empty_stage_is_forked_witness:
  "h_toks_ok heap0 \<and> fits 0 (strtok_all ''ls < in.txt | | wc |'') \<and>
   (1::nat) \<le> count_list (strtok_all ''ls < in.txt | | wc |'') ''|'' \<and>
   segments (strtok_all ''ls < in.txt | | wc |'') ! 1 = [] \<and>
   strtok_all ''ls < in.txt | | wc |'' = [''ls'', ''<'', ''in.txt'', ''|'', ''|'', ''wc'', ''|''] \<and>
   last_operand (\<lambda>t. t = ''<'') (strtok_all ''ls < in.txt | | wc |'') = Some (''<'', ''in.txt'') \<and>
   can_read os0 ''in.txt'' \<and>
   (\<exists>f. cmd_builder 0 ''log'' heap0 ''ls < in.txt | | wc |'' = Inr f \<and> num_cmds f = 4 \<and>
        child_argv f 1 = Some [] \<and> snd (execute_cmd os0 f 0) = Inr 1 \<and>
        stage_fork os0 f (pipeline_stdin f) 1 \<in> set (forks (fst (execute_cmd os0 f 0))))"
proof -
  have t: "strtok_all ''ls < in.txt | | wc |''
             = [''ls'', ''<'', ''in.txt'', ''|'', ''|'', ''wc'', ''|'']" by code_simp
  have l: "last_operand (\<lambda>t. t = ''<'') (strtok_all ''ls < in.txt | | wc |'')
             = Some (''<'', ''in.txt'')"
    unfolding t by code_simp
  have r: "can_read os0 ''in.txt''" by code_simp
  have h: "h_toks_ok heap0" "fits 0 (strtok_all ''ls < in.txt | | wc |'')"
    "(1::nat) \<le> count_list (strtok_all ''ls < in.txt | | wc |'') ''|''"
    "segments (strtok_all ''ls < in.txt | | wc |'') ! 1 = []"
    "strtok_all ''ls < in.txt | | wc |'' = ''ls'' # [''<'', ''in.txt'', ''|'', ''|'', ''wc'', ''|'']"
    "''ls'' \<noteq> ''|''" "\<not> is_redir ''ls''" "''ls'' \<noteq> ''quit''"
    unfolding t by code_simp+
  have h9: "\<forall>opr x. last_operand (\<lambda>t. t = ''<'') (strtok_all ''ls < in.txt | | wc |'')
               = Some (opr, x) \<longrightarrow> can_read os0 x"
    using l r by simp
  show ?thesis
    using h(1-4) t l r C4_empty_stage_is_forked [OF h h9, of "''log''" 0]
    by (auto simp: t)
qed

text \<open>
  Where the sentence of the spec fails: the line \<open>ls |\<close> is not rejected; both stages are forked,
  the second with an empty argument vector.
\<close>

theorem C4_counterexample:
  "forks (fst (loop os0 0 ''log'' 0 0 [''ls |\<newline>'', ''quit\<newline>''])) =
     [Sys_fork 0 Inherited_in (Pipe_write 0) (Some [''ls'']),
      Sys_fork 1 (Pipe_read 0) Inherited_out (Some [])] \<and>
   forks (fst (loop os0 0 ''log'' 0 0 [''ls | | wc\<newline>'', ''quit\<newline>''])) =
     [Sys_fork 0 Inherited_in (Pipe_write 0) (Some [''ls'']),
      Sys_fork 1 (Pipe_read 0) (Pipe_write 1) (Some []),
      Sys_fork 2 (Pipe_read 1) Inherited_out (Some [''wc''])]"
  by code_simp

subsection \<open>C5\<close>

text \<open>
  C5. A line without tokens does not give an empty pipeline. \<open>cmd_builder\<close> returns
  \<open>num_cmds = 1\<close> with \<open>args[0] = NULL\<close> in the first command, and \<open>execute_cmd\<close> hands
  that null pointer to \<open>strcmp\<close>: on the line of two spaces the pass of \<open>loop\<close> stops in
  undefined behaviour right after the prompt, and the next line is not read.
\<close>

theorem C5_blank_line_null_pointer:
  "get_cmd 0 (Some ''  \<newline>'') = Inr (0, ''  '') \<and>
   strtok_all ''  '' = [] \<and>
   map_sum id num_cmds (cmd_builder 0 ''log'' heap0 ''  '') = Inr 1 \<and>
   map_sum id (\<lambda>f. args (cmds f ! 0) ! 0) (cmd_builder 0 ''log'' heap0 ''  '') = Inr Null \<and>
   execute_cmd os0 (pipeline_of [[]] Null Null 0) 0 = ([], Inl Bad_pointer) \<and>
   loop os0 0 ''log'' 0 0 [''  \<newline>'', ''ls\<newline>''] = ([Prompt], Inl Bad_pointer)"
  by code_simp

subsection \<open>C6\<close>

text \<open>
  C6. When the first command's program name is \<open>quit\<close>, \<open>execute_cmd\<close> returns 0 and makes no
  system call at all; in \<open>loop\<close> a line whose first token is \<open>quit\<close> ends the loop after
  the prompt (and the transcript writes of \<open>loop\<close> itself), leaving the remaining input
  unread.
\<close>

theorem C6_quit:
  "(cmds cmd \<noteq> [] \<and> args (cmds cmd ! 0) \<noteq> [] \<and> args (cmds cmd ! 0) ! 0 = Ptr ''quit''
      \<longrightarrow> execute_cmd env cmd bg_flag = ([], Inr 0)) \<and>
   (get_cmd bg (Some raw) = Inr (bg1, line) \<and> h_toks_ok (fresh_heap env n) \<and>
    fits backup (strtok_all line) \<and> strtok_all line = ''quit'' # ts
      \<longrightarrow> loop env backup fname n bg (raw # rest) = (prompt_events backup line @ [Free], Inr ()))"
proof (intro conjI impI)
  assume "cmds cmd \<noteq> [] \<and> args (cmds cmd ! 0) \<noteq> [] \<and> args (cmds cmd ! 0) ! 0 = Ptr ''quit''"
  then show "execute_cmd env cmd bg_flag = ([], Inr 0)" by (simp add: execute_cmd_quit)
next
  assume a: "get_cmd bg (Some raw) = Inr (bg1, line) \<and> h_toks_ok (fresh_heap env n) \<and>
    fits backup (strtok_all line) \<and> strtok_all line = ''quit'' # ts"
  then obtain f where f: "cmd_builder backup fname (fresh_heap env n) line = Inr f"
    using cmd_builder_defined by blast
  have q: "args (cmds f ! 0) ! 0 = Ptr ''quit''"
    using built_name [OF f, of "''quit''" ts] a by (simp add: is_redir_def)
  have e: "execute_cmd env f bg1 = ([], Inr 0)"
    using execute_cmd_quit [OF built_shape(1,2) [OF f] q] .
  have "loop_pass env backup fname n bg (Some raw) = (prompt_events backup line @ [Free], Inr (0, bg1))"
    using loop_pass_built [OF _ f e] a by simp
  then show "loop env backup fname n bg (raw # rest) = (prompt_events backup line @ [Free], Inr ())"
    by simp
qed

theorem C6_quit_witness:
  "cmds (pipeline_of [[''quit'', ''now'']] Null Null 0) \<noteq> [] \<and>
   args (cmds (pipeline_of [[''quit'', ''now'']] Null Null 0) ! 0) \<noteq> [] \<and>
   args (cmds (pipeline_of [[''quit'', ''now'']] Null Null 0) ! 0) ! 0 = Ptr ''quit'' \<and>
   execute_cmd os0 (pipeline_of [[''quit'', ''now'']] Null Null 0) 0 = ([], Inr 0) \<and>
   get_cmd 0 (Some ''quit | wc\<newline>'') = Inr (0, ''quit | wc'') \<and>
   h_toks_ok (fresh_heap os0 0) \<and> fits 1 (strtok_all ''quit | wc'') \<and>
   strtok_all ''quit | wc'' = [''quit'', ''|'', ''wc''] \<and>
   loop os0 1 ''log'' 0 0 [''quit | wc\<newline>'', ''ls\<newline>'']
     = ([Prompt, Backup_write ''> '', Backup_write ''quit | wc'', Backup_write ''\<newline>'', Free],
        Inr ())"
proof -
  have h1: "cmds (pipeline_of [[''quit'', ''now'']] Null Null 0) \<noteq> [] \<and>
     args (cmds (pipeline_of [[''quit'', ''now'']] Null Null 0) ! 0) \<noteq> [] \<and>
     args (cmds (pipeline_of [[''quit'', ''now'']] Null Null 0) ! 0) ! 0 = Ptr ''quit''"
    by (simp add: pipeline_of_def)
  have t: "strtok_all ''quit | wc'' = [''quit'', ''|'', ''wc'']" by code_simp
  have h2: "get_cmd 0 (Some ''quit | wc\<newline>'') = Inr (0, ''quit | wc'') \<and>
     h_toks_ok (fresh_heap os0 0) \<and> fits 1 (strtok_all ''quit | wc'') \<and>
     strtok_all ''quit | wc'' = ''quit'' # [''|'', ''wc'']"
    unfolding t by code_simp
  have p: "prompt_events 1 ''quit | wc'' @ [Free]
             = [Prompt, Backup_write ''> '', Backup_write ''quit | wc'', Backup_write ''\<newline>'', Free]"
    by (simp add: prompt_events_def)
  show ?thesis
    using C6_quit [of "pipeline_of [[''quit'', ''now'']] Null Null 0" os0 0 0 "''quit | wc\<newline>''" 0
                      "''quit | wc''" 0 1 "[''|'', ''wc'']" "''log''" "[''ls\<newline>'']"]
      h1 h2 p t
    by simp
qed

subsection \<open>C7\<close>

text \<open>
  C7, as the code has it. Redirection is a property of the whole pipeline, and there is
  one input and one output per line. Take a line that fits the arrays of \<open>cmd_builder\<close>
  (the allocation of \<open>toks\<close> succeeding). \<open>file_in\<close> is the token after the last \<open><\<close> that
  is followed by a token other than \<open>|\<close>, and \<open>file_out\<close> the token after the last \<open>>\<close>
  or \<open>>>\<close> so followed (with \<open>overwrite\<close> set by that operator); this is so wherever in
  the line, and in whichever stage, operator and operand stand, and of several operators
  of one kind only the last one's operand is kept. The argument vector of a stage
  is a prefix of the stage's tokens that ends before the first redirection operator with
  an operand, so no operand is an argument of any stage. When the line starts with a
  program name (neither \<open>|\<close> nor a redirection operator) other than \<open>quit\<close> and the files
  open, the child of command 0 gets \<open>file_in\<close> (or the inherited input) as standard input
  and every later child the read end of the pipe from its predecessor; the child of the
  last command gets \<open>file_out\<close> (or the inherited output) as standard output and every
  earlier child the write end of the pipe to its successor.
\<close>

theorem C7_redirection_is_pipeline_level:
  assumes "h_toks_ok h" and "fits backup (strtok_all line)"
  shows "\<exists>f. cmd_builder backup fname h line = Inr f \<and>
    nat (num_cmds f) = count_list (strtok_all line) ''|'' + 1 + (if backup \<noteq> 0 then 1 else 0) \<and>
    file_in f = target (last_operand (\<lambda>t. t = ''<'') (strtok_all line)) \<and>
    file_out f = target (last_operand is_out (strtok_all line)) \<and>
    (\<forall>pre x post. strtok_all line = pre @ ''<'' # x # post \<and> x \<noteq> ''|'' \<and>
        last_operand (\<lambda>t. t = ''<'') (x # post) = None \<longrightarrow> file_in f = Ptr x) \<and>
    (\<forall>pre opr x post. strtok_all line = pre @ opr # x # post \<and> is_out opr \<and> x \<noteq> ''|'' \<and>
        last_operand is_out (x # post) = None
        \<longrightarrow> file_out f = Ptr x \<and> overwrite f = (if opr = ''>'' then 1 else 0)) \<and>
    (\<forall>j \<le> count_list (strtok_all line) ''|''.
        child_argv f j = Some (stage_argv (segments (strtok_all line) ! j))) \<and>
    (\<forall>j pre opr x post. j \<le> count_list (strtok_all line) ''|'' \<and>
        segments (strtok_all line) ! j = pre @ opr # x # post \<and> is_redir opr
        \<longrightarrow> (\<exists>m \<le> length pre. child_argv f j = Some (take m pre))) \<and>
    (\<forall>env bg_flag name ts. strtok_all line = name # ts \<and> name \<noteq> ''|'' \<and> \<not> is_redir name \<and>
        name \<noteq> ''quit'' \<and> (\<forall>x. file_in f = Ptr x \<longrightarrow> can_read env x) \<and>
        (\<forall>x. file_out f = Ptr x \<longrightarrow> can_write env x)
        \<longrightarrow> forks (fst (execute_cmd env f bg_flag)) =
              map (\<lambda>j. Sys_fork j
                     (if j = 0
                      then (case file_in f of Ptr x \<Rightarrow> File_read x | _ \<Rightarrow> Inherited_in)
                      else Pipe_read (j - 1))
                     (if j = nat (num_cmds f) - 1
                      then (case file_out f of
                              Ptr x \<Rightarrow> if overwrite f \<noteq> 0 then File_trunc x else File_append x
                            | _ \<Rightarrow> Inherited_out)
                      else Pipe_write j)
                     (child_argv f j))
                  [0..<nat (num_cmds f)])"
proof -
  let ?p = "strtok_all line"
  obtain f where f: "cmd_builder backup fname h line = Inr f"
    using cmd_builder_defined [OF assms] by blast
  note fi = cmd_builder_Inr(5) [OF f] and fo = cmd_builder_Inr(6) [OF f]
    and ov = cmd_builder_Inr(7) [OF f]
  have a: "file_in f = Ptr x"
    if "?p = pre @ ''<'' # x # post \<and> x \<noteq> ''|'' \<and> last_operand (\<lambda>t. t = ''<'') (x # post) = None"
    for pre x post
  proof -
    have "last_operand (\<lambda>t. t = ''<'') ?p = Some (''<'', x)"
      using that last_operand_at [of "\<lambda>t. t = ''<''" "''<''" x post pre] by simp
    then show ?thesis using fi by (simp add: target_def)
  qed
  have b: "file_out f = Ptr x \<and> overwrite f = (if opr = ''>'' then 1 else 0)"
    if "?p = pre @ opr # x # post \<and> is_out opr \<and> x \<noteq> ''|'' \<and> last_operand is_out (x # post) = None"
    for pre opr x post
  proof -
    have l: "last_operand is_out ?p = Some (opr, x)"
      using that last_operand_at [of is_out opr x post pre] by simp
    show ?thesis using fo ov [OF l] l by (simp add: target_def)
  qed
  have c: "child_argv f j = Some (stage_argv (segments ?p ! j))"
    if "j \<le> count_list ?p ''|''" for j
    using child_argv_built [OF f that] .
  have d: "\<exists>m \<le> length pre. child_argv f j = Some (take m pre)"
    if "j \<le> count_list ?p ''|'' \<and> segments ?p ! j = pre @ opr # x # post \<and> is_redir opr"
    for j pre opr x post
    using c [of j] that stage_argv_stops [of opr pre x post] by auto
  have e: "forks (fst (execute_cmd env f bg_flag)) =
              map (\<lambda>j. Sys_fork j
                     (if j = 0
                      then (case file_in f of Ptr x \<Rightarrow> File_read x | _ \<Rightarrow> Inherited_in)
                      else Pipe_read (j - 1))
                     (if j = nat (num_cmds f) - 1
                      then (case file_out f of
                              Ptr x \<Rightarrow> if overwrite f \<noteq> 0 then File_trunc x else File_append x
                            | _ \<Rightarrow> Inherited_out)
                      else Pipe_write j)
                     (child_argv f j))
                  [0..<nat (num_cmds f)]"
    if h: "?p = name # ts \<and> name \<noteq> ''|'' \<and> \<not> is_redir name \<and>
        name \<noteq> ''quit'' \<and> (\<forall>x. file_in f = Ptr x \<longrightarrow> can_read env x) \<and>
        (\<forall>x. file_out f = Ptr x \<longrightarrow> can_write env x)"
    for env bg_flag name ts
  proof -
    have rd: "can_read env x" if "last_operand (\<lambda>t. t = ''<'') ?p = Some (opr, x)" for opr x
      using built_file_in [OF f that] h by blast
    have h1: "?p = name # ts" and h2: "name \<noteq> ''|''" and h3: "\<not> is_redir name"
      and h4: "name \<noteq> ''quit''"
      using h by blast+
    have "forks (fst (execute_cmd env f bg_flag))
            = map (stage_fork env f (pipeline_stdin f)) [0..<nat (num_cmds f)]"
      by (rule built_runs(2) [OF f h1 h2 h3 h4 rd])
    then show ?thesis using stage_fork_explicit [OF built_shape(5) [OF f], of env] h by simp
  qed
  show ?thesis
    using f built_num_cmds [OF f] fi fo a b c d e by (intro exI [of _ f] conjI allI impI) blast+
qed

theorem C7_redirection_is_pipeline_level_witness:
  "h_toks_ok heap0 \<and> fits 0 (strtok_all ''a | b < in.txt | c > out.txt'') \<and>
   (\<exists>f. cmd_builder 0 ''log'' heap0 ''a | b < in.txt | c > out.txt'' = Inr f \<and>
        file_in f = Ptr ''in.txt'' \<and> file_out f = Ptr ''out.txt'' \<and> overwrite f = 1 \<and>
        child_argv f 1 = Some [''b''] \<and>
        forks (fst (execute_cmd os0 f 0)) =
          [Sys_fork 0 (File_read ''in.txt'') (Pipe_write 0) (Some [''a'']),
           Sys_fork 1 (Pipe_read 0) (Pipe_write 1) (Some [''b'']),
           Sys_fork 2 (Pipe_read 1) (File_trunc ''out.txt'') (Some [''c''])])"
proof -
  let ?L = "''a | b < in.txt | c > out.txt''"
  let ?p = "[''a'', ''|'', ''b'', ''<'', ''in.txt'', ''|'', ''c'', ''>'', ''out.txt'']"
  have t: "strtok_all ?L = ?p" by code_simp
  have h: "h_toks_ok heap0" "fits 0 (strtok_all ?L)" unfolding t by code_simp+
  note c7 = C7_redirection_is_pipeline_level [OF h, of "''log''", unfolded t]
  from c7 obtain f where F: "cmd_builder 0 ''log'' heap0 ?L = Inr f \<and>
    nat (num_cmds f) = count_list ?p ''|'' + 1 + (if (0::int) \<noteq> 0 then 1 else 0) \<and>
    file_in f = target (last_operand (\<lambda>t. t = ''<'') ?p) \<and>
    file_out f = target (last_operand is_out ?p) \<and>
    (\<forall>pre x post. ?p = pre @ ''<'' # x # post \<and> x \<noteq> ''|'' \<and>
        last_operand (\<lambda>t. t = ''<'') (x # post) = None \<longrightarrow> file_in f = Ptr x) \<and>
    (\<forall>pre opr x post. ?p = pre @ opr # x # post \<and> is_out opr \<and> x \<noteq> ''|'' \<and>
        last_operand is_out (x # post) = None
        \<longrightarrow> file_out f = Ptr x \<and> overwrite f = (if opr = ''>'' then 1 else 0)) \<and>
    (\<forall>j \<le> count_list ?p ''|''. child_argv f j = Some (stage_argv (segments ?p ! j))) \<and>
    (\<forall>j pre opr x post. j \<le> count_list ?p ''|'' \<and>
        segments ?p ! j = pre @ opr # x # post \<and> is_redir opr
        \<longrightarrow> (\<exists>m \<le> length pre. child_argv f j = Some (take m pre))) \<and>
    (\<forall>env bg_flag name ts. ?p = name # ts \<and> name \<noteq> ''|'' \<and> \<not> is_redir name \<and>
        name \<noteq> ''quit'' \<and> (\<forall>x. file_in f = Ptr x \<longrightarrow> can_read env x) \<and>
        (\<forall>x. file_out f = Ptr x \<longrightarrow> can_write env x)
        \<longrightarrow> forks (fst (execute_cmd env f bg_flag)) =
              map (\<lambda>j. Sys_fork j
                     (if j = 0
                      then (case file_in f of Ptr x \<Rightarrow> File_read x | _ \<Rightarrow> Inherited_in)
                      else Pipe_read (j - 1))
                     (if j = nat (num_cmds f) - 1
                      then (case file_out f of
                              Ptr x \<Rightarrow> if overwrite f \<noteq> 0 then File_trunc x else File_append x
                            | _ \<Rightarrow> Inherited_out)
                      else Pipe_write j)
                     (child_argv f j))
                  [0..<nat (num_cmds f)])"
    by (rule exE)
  note f = F [THEN conjunct1]
    and n = F [THEN conjunct2, THEN conjunct1]
    and fi = F [THEN conjunct2, THEN conjunct2, THEN conjunct1]
    and fo = F [THEN conjunct2, THEN conjunct2, THEN conjunct2, THEN conjunct1]
    and ov = F [THEN conjunct2, THEN conjunct2, THEN conjunct2, THEN conjunct2, THEN conjunct2,
                THEN conjunct1]
    and av = F [THEN conjunct2, THEN conjunct2, THEN conjunct2, THEN conjunct2, THEN conjunct2,
                THEN conjunct2, THEN conjunct1]
    and fk = F [THEN conjunct2, THEN conjunct2, THEN conjunct2, THEN conjunct2, THEN conjunct2,
                THEN conjunct2, THEN conjunct2, THEN conjunct2]
  have n3: "nat (num_cmds f) = 3" using n by simp
  have fi': "file_in f = Ptr ''in.txt''" unfolding fi by code_simp
  have fo': "file_out f = Ptr ''out.txt''" unfolding fo by code_simp
  have "?p = [''a'', ''|'', ''b'', ''<'', ''in.txt'', ''|'', ''c''] @ ''>'' # ''out.txt'' # [] \<and>
        is_out ''>'' \<and> ''out.txt'' \<noteq> ''|'' \<and> last_operand is_out (''out.txt'' # []) = None"
    by (simp add: is_out_def)
  then have ov': "overwrite f = 1"
    using ov [rule_format, of "[''a'', ''|'', ''b'', ''<'', ''in.txt'', ''|'', ''c'']" "''>''"
                "''out.txt''" "[]"]
    by simp
  have k: "count_list ?p ''|'' = 2" by code_simp
  have s: "stage_argv (segments ?p ! 0) = [''a'']" "stage_argv (segments ?p ! 1) = [''b'']"
    "stage_argv (segments ?p ! 2) = [''c'']"
    by code_simp+
  have c0: "child_argv f 0 = Some [''a'']"
    using av [rule_format, of 0] s(1) unfolding k by simp
  have c1: "child_argv f (Suc 0) = Some [''b'']"
    using av [rule_format, of 1] s(2) unfolding k by simp
  have c2: "child_argv f 2 = Some [''c'']"
    using av [rule_format, of 2] s(3) unfolding k by simp
  have "?p = ''a'' # [''|'', ''b'', ''<'', ''in.txt'', ''|'', ''c'', ''>'', ''out.txt''] \<and>
        ''a'' \<noteq> ''|'' \<and> \<not> is_redir ''a'' \<and> ''a'' \<noteq> ''quit'' \<and>
        (\<forall>x. file_in f = Ptr x \<longrightarrow> can_read os0 x) \<and>
        (\<forall>x. file_out f = Ptr x \<longrightarrow> can_write os0 x)"
    by (simp add: fi' fo' is_redir_def os0_def)
  then have "forks (fst (execute_cmd os0 f 0)) =
              map (\<lambda>j. Sys_fork j
                     (if j = 0
                      then (case file_in f of Ptr x \<Rightarrow> File_read x | _ \<Rightarrow> Inherited_in)
                      else Pipe_read (j - 1))
                     (if j = nat (num_cmds f) - 1
                      then (case file_out f of
                              Ptr x \<Rightarrow> if overwrite f \<noteq> 0 then File_trunc x else File_append x
                            | _ \<Rightarrow> Inherited_out)
                      else Pipe_write j)
                     (child_argv f j))
                  [0..<nat (num_cmds f)]"
    using fk [rule_format, of "''a''" "[''|'', ''b'', ''<'', ''in.txt'', ''|'', ''c'', ''>'', ''out.txt'']" os0 0] by blast
  moreover have "[0..<3] = [0, 1, 2::nat]" by code_simp
  ultimately have "forks (fst (execute_cmd os0 f 0)) =
          [Sys_fork 0 (File_read ''in.txt'') (Pipe_write 0) (Some [''a'']),
           Sys_fork 1 (Pipe_read 0) (Pipe_write 1) (Some [''b'']),
           Sys_fork 2 (Pipe_read 1) (File_trunc ''out.txt'') (Some [''c''])]"
    by (simp add: n3 fi' fo' ov' c0 c1 c2)
  then show ?thesis using h f fi' fo' ov' c1 by auto
qed

text \<open>
  Where the sentence of the spec fails: not every operand that follows a \<open><\<close> becomes
  the input of the pipeline. In \<open>cat < a < b | wc\<close> the input is \<open>b\<close>; \<open>a\<close> is neither the
  input nor an argument, and no child reads it.
\<close>

theorem C7_counterexample:
  "strtok_all ''cat < a < b | wc'' = [''cat'', ''<'', ''a'', ''<'', ''b'', ''|'', ''wc''] \<and>
   map_sum id (\<lambda>f. (file_in f, file_out f, map (child_argv f) [0, 1]))
     (cmd_builder 0 ''log'' heap0 ''cat < a < b | wc'')
     = Inr (Ptr ''b'', Null, [Some [''cat''], Some [''wc'']]) \<and>
   forks (fst (loop (os0\<lparr>can_read := (\<lambda>f. True)\<rparr>) 0 ''log'' 0 0
                 [''cat < a < b | wc\<newline>'', ''quit\<newline>'']))
     = [Sys_fork 0 (File_read ''b'') (Pipe_write 0) (Some [''cat'']),
        Sys_fork 1 (Pipe_read 0) Inherited_out (Some [''wc''])] \<and>
   filter (\<lambda>e. e = Sys_open (File_read ''a'') True \<or> e = Sys_open (File_read ''a'') False)
     (fst (loop (os0\<lparr>can_read := (\<lambda>f. True)\<rparr>) 0 ''log'' 0 0
             [''cat < a < b | wc\<newline>'', ''quit\<newline>'']))
     = []"
  by code_simp

subsection \<open>C8\<close>

text \<open>
  C8, as the code has it. \<open>cmd_builder\<close> has no capacity check. A line fits when it has at
  most 128 tokens, at most 16 commands (the transcript's \<open>tee\<close> included) and, in every
  stage, at most 100 tokens that take a slot of \<open>args\<close>. With the allocation of \<open>toks\<close>
  succeeding, a line that fits gets its pipeline, with one stage per \<open>|\<close> plus one (and
  the \<open>tee\<close>), and no capacity cuts a stage short: the argument vector of each of the
  line's stages is the stage's tokens up to its first redirection operator with an
  operand, and all of the stage's tokens when it has none. A line that does not fit makes the parser write
  outside one of its arrays; nothing is reported, and \<open>loop\<close> is in undefined behaviour
  right after the prompt.
\<close>

theorem C8_no_capacity_check:
  assumes "h_toks_ok h"
  shows "(fits backup (strtok_all line) \<longrightarrow>
            (\<exists>f. cmd_builder backup fname h line = Inr f \<and>
                 nat (num_cmds f) = count_list (strtok_all line) ''|'' + 1
                                    + (if backup \<noteq> 0 then 1 else 0) \<and>
                 (\<forall>j \<le> count_list (strtok_all line) ''|''.
                    child_argv f j = Some (stage_argv (segments (strtok_all line) ! j)) \<and>
                    (\<not> has_operand (segments (strtok_all line) ! j) \<longrightarrow>
                       child_argv f j = Some (segments (strtok_all line) ! j))))) \<and>
         (\<not> fits backup (strtok_all line) \<longrightarrow>
            cmd_builder backup fname h line = Inl Out_of_bounds) \<and>
         (\<not> fits backup (strtok_all line) \<and> get_cmd bg (Some raw) = Inr (bg1, line) \<and>
          fresh_heap env n = h \<longrightarrow>
            loop env backup fname n bg (raw # rest) = (prompt_events backup line, Inl Out_of_bounds))"
proof (intro conjI impI)
  assume "fits backup (strtok_all line)"
  then obtain f where f: "cmd_builder backup fname h line = Inr f"
    using cmd_builder_defined [OF assms] by blast
  show "\<exists>f. cmd_builder backup fname h line = Inr f \<and>
                 nat (num_cmds f) = count_list (strtok_all line) ''|'' + 1
                                    + (if backup \<noteq> 0 then 1 else 0) \<and>
                 (\<forall>j \<le> count_list (strtok_all line) ''|''.
                    child_argv f j = Some (stage_argv (segments (strtok_all line) ! j)) \<and>
                    (\<not> has_operand (segments (strtok_all line) ! j) \<longrightarrow>
                       child_argv f j = Some (segments (strtok_all line) ! j)))"
    using f built_num_cmds [OF f] child_argv_built [OF f] stage_argv_id by (metis (no_types))
next
  assume nf: "\<not> fits backup (strtok_all line)"
  show "cmd_builder backup fname h line = Inl Out_of_bounds"
  proof (cases "cmd_builder backup fname h line")
    case (Inl e)
    then show ?thesis using cmd_builder_Inl [OF Inl] assms by simp
  next
    case (Inr f)
    then show ?thesis using cmd_builder_Inr(8) [OF Inr] nf by simp
  qed
next
  assume a: "\<not> fits backup (strtok_all line) \<and> get_cmd bg (Some raw) = Inr (bg1, line) \<and>
          fresh_heap env n = h"
  have "cmd_builder backup fname h line = Inl Out_of_bounds"
  proof (cases "cmd_builder backup fname h line")
    case (Inl e)
    then show ?thesis using cmd_builder_Inl [OF Inl] assms by simp
  next
    case (Inr f)
    then show ?thesis using cmd_builder_Inr(8) [OF Inr] a by simp
  qed
  then have "loop_pass env backup fname n bg (Some raw) = (prompt_events backup line, Inl Out_of_bounds)"
    using a by (simp add: loop_pass_def prompt_events_def)
  then show "loop env backup fname n bg (raw # rest) = (prompt_events backup line, Inl Out_of_bounds)"
    by simp
qed

theorem C8_no_capacity_check_witness:
  "h_toks_ok heap0 \<and> fits 0 (strtok_all ''ls -l | wc'') \<and>
   (\<exists>f. cmd_builder 0 ''log'' heap0 ''ls -l | wc'' = Inr f \<and> nat (num_cmds f) = 2 \<and>
        child_argv f 0 = Some [''ls'', ''-l''] \<and> child_argv f 1 = Some [''wc'']) \<and>
   \<not> fits 0 (strtok_all seventeen_stages) \<and>
   cmd_builder 0 ''log'' heap0 seventeen_stages = Inl Out_of_bounds \<and>
   get_cmd 0 (Some (seventeen_stages @ ''\<newline>'')) = Inr (0, seventeen_stages) \<and>
   fresh_heap os0 0 = heap0 \<and>
   loop os0 0 ''log'' 0 0 [seventeen_stages @ ''\<newline>'', ''ls\<newline>''] = ([Prompt], Inl Out_of_bounds)"
proof -
  have h: "h_toks_ok heap0" by (simp add: heap0_def)
  have t: "strtok_all ''ls -l | wc'' = [''ls'', ''-l'', ''|'', ''wc'']" by code_simp
  have a: "fits 0 (strtok_all ''ls -l | wc'')" unfolding t by code_simp
  have k: "count_list [''ls'', ''-l'', ''|'', ''wc''] ''|'' = 1" by code_simp
  have s: "stage_argv (segments [''ls'', ''-l'', ''|'', ''wc''] ! 0) = [''ls'', ''-l'']"
    "stage_argv (segments [''ls'', ''-l'', ''|'', ''wc''] ! 1) = [''wc'']"
    by code_simp+
  have b: "\<not> fits 0 (strtok_all seventeen_stages)" by code_simp
  have g: "get_cmd 0 (Some (seventeen_stages @ ''\<newline>'')) = Inr (0, seventeen_stages)" by code_simp
  have e: "fresh_heap os0 0 = heap0" by (simp add: os0_def)
  have p: "prompt_events 0 seventeen_stages = [Prompt]" by (simp add: prompt_events_def)
  note c8a = C8_no_capacity_check [OF h, of 0 "''ls -l | wc''" "''log''", unfolded t k]
  note c8b = C8_no_capacity_check [OF h, of 0 seventeen_stages "''log''" 0
                "seventeen_stages @ ''\<newline>''" 0 os0 0 "[''ls\<newline>'']"]
  from c8a a t obtain f where f: "cmd_builder 0 ''log'' heap0 ''ls -l | wc'' = Inr f"
      "nat (num_cmds f) = 1 + 1 + (if (0::int) \<noteq> 0 then 1 else 0)"
      "\<forall>j \<le> 1. child_argv f j = Some (stage_argv (segments [''ls'', ''-l'', ''|'', ''wc''] ! j))"
    by auto
  have c0: "child_argv f 0 = Some [''ls'', ''-l'']" using f(3) [rule_format, of 0] s(1) by simp
  have c1: "child_argv f 1 = Some [''wc'']" using f(3) [rule_format, of 1] s(2) by simp
  have "\<exists>f. cmd_builder 0 ''log'' heap0 ''ls -l | wc'' = Inr f \<and> nat (num_cmds f) = 2 \<and>
        child_argv f 0 = Some [''ls'', ''-l''] \<and> child_argv f 1 = Some [''wc'']"
    using f(1,2) c0 c1 by auto
  then show ?thesis using h a b g e p c8b by simp
qed

text \<open>
  Where the sentence of the spec fails: seventeen stages, or 101 arguments in one stage, are not
  reported and the interpreter does not go on to the next line.
\<close>

theorem C8_counterexample:
  "loop os0 0 ''log'' 0 0 [seventeen_stages @ ''\<newline>'', ''ls\<newline>''] = ([Prompt], Inl Out_of_bounds) \<and>
   loop os0 0 ''log'' 0 0 [hundred_one_args @ ''\<newline>'', ''ls\<newline>''] = ([Prompt], Inl Out_of_bounds) \<and>
   count_list (strtok_all seventeen_stages) ''|'' = 16 \<and>
   length (strtok_all hundred_one_args) = 101"
  by code_simp

subsection \<open>C9\<close>

text \<open>
  C9, as the code has it. Two builds of the same line, each in its own freshly allocated memory
  (whatever that memory held before), either both run out of their arrays or give
  pipelines that agree in everything the executor reads: the stage count, the argument
  vector of every stage, \<open>file_in\<close>, \<open>file_out\<close>, and \<open>overwrite\<close> whenever there is an output
  file. \<open>execute_cmd\<close> then behaves the same on both. The flag \<open>bg\<close> that \<open>get_cmd\<close>
  computes for a line is the same when the line is read again, even starting from the
  flag the first reading left.
\<close>

theorem C9_rebuild_agrees:
  assumes "h_toks_ok h1" and "h_toks_ok h2"
  shows "((cmd_builder backup fname h1 line = Inl Out_of_bounds \<and>
           cmd_builder backup fname h2 line = Inl Out_of_bounds) \<or>
          (\<exists>f1 f2. cmd_builder backup fname h1 line = Inr f1 \<and>
                   cmd_builder backup fname h2 line = Inr f2 \<and>
                   num_cmds f1 = num_cmds f2 \<and>
                   (\<forall>j < nat (num_cmds f1). child_argv f1 j = child_argv f2 j) \<and>
                   file_in f1 = file_in f2 \<and> file_out f1 = file_out f2 \<and>
                   (file_out f1 \<noteq> Null \<longrightarrow> overwrite f1 = overwrite f2) \<and>
                   (\<forall>env bg_flag. execute_cmd env f1 bg_flag = execute_cmd env f2 bg_flag))) \<and>
         (get_cmd bg raw = Inr (bg1, l) \<longrightarrow> get_cmd bg1 raw = Inr (bg1, l))"
proof (rule conjI)
  show "get_cmd bg raw = Inr (bg1, l) \<longrightarrow> get_cmd bg1 raw = Inr (bg1, l)"
    by (auto simp: get_cmd_def Let_def split: option.splits if_splits)
  show "(cmd_builder backup fname h1 line = Inl Out_of_bounds \<and>
           cmd_builder backup fname h2 line = Inl Out_of_bounds) \<or>
          (\<exists>f1 f2. cmd_builder backup fname h1 line = Inr f1 \<and>
                   cmd_builder backup fname h2 line = Inr f2 \<and>
                   num_cmds f1 = num_cmds f2 \<and>
                   (\<forall>j < nat (num_cmds f1). child_argv f1 j = child_argv f2 j) \<and>
                   file_in f1 = file_in f2 \<and> file_out f1 = file_out f2 \<and>
                   (file_out f1 \<noteq> Null \<longrightarrow> overwrite f1 = overwrite f2) \<and>
                   (\<forall>env bg_flag. execute_cmd env f1 bg_flag = execute_cmd env f2 bg_flag))"
  proof (cases "fits backup (strtok_all line)")
    case False
    have "cmd_builder backup fname h line = Inl Out_of_bounds" if "h_toks_ok h" for h
    proof (cases "cmd_builder backup fname h line")
      case (Inl e)
      then show ?thesis using cmd_builder_Inl [OF Inl] that by simp
    next
      case (Inr f)
      then show ?thesis using cmd_builder_Inr(8) [OF Inr] False by simp
    qed
    then show ?thesis using assms by simp
  next
    case True
    obtain f1 where f1: "cmd_builder backup fname h1 line = Inr f1"
      using cmd_builder_defined [OF assms(1) True] by blast
    obtain f2 where f2: "cmd_builder backup fname h2 line = Inr f2"
      using cmd_builder_defined [OF assms(2) True] by blast
    have n: "num_cmds f1 = num_cmds f2"
      using cmd_builder_Inr(2) [OF f1] cmd_builder_Inr(2) [OF f2] by simp
    have av: "\<forall>j < nat (num_cmds f1). child_argv f1 j = child_argv f2 j"
      using built_child_argv_all [OF f1 f2] by blast
    have fi: "file_in f1 = file_in f2"
      using cmd_builder_Inr(5) [OF f1] cmd_builder_Inr(5) [OF f2] by simp
    have fo: "file_out f1 = file_out f2"
      using cmd_builder_Inr(6) [OF f1] cmd_builder_Inr(6) [OF f2] by simp
    have ov: "file_out f1 \<noteq> Null \<longrightarrow> overwrite f1 = overwrite f2"
    proof
      assume "file_out f1 \<noteq> Null"
      then obtain opr x where l: "last_operand is_out (strtok_all line) = Some (opr, x)"
        using cmd_builder_Inr(6) [OF f1]
        by (cases "last_operand is_out (strtok_all line)") (auto simp: target_def)
      show "overwrite f1 = overwrite f2"
        using cmd_builder_Inr(7) [OF f1 l] cmd_builder_Inr(7) [OF f2 l] by simp
    qed
    have a0: "args (cmds f1 ! 0) ! 0 = args (cmds f2 ! 0) ! 0"
      using built_first_slot [OF f1] built_first_slot [OF f2] by simp
    have ex: "execute_cmd env f1 bg_flag = execute_cmd env f2 bg_flag" for env bg_flag
      by (rule execute_cmd_cong [OF n av fi fo ov built_shape(1,2) [OF f1] built_shape(1,2) [OF f2] a0])
    show ?thesis using f1 f2 n av fi fo ov ex by blast
  qed
qed

theorem C9_rebuild_agrees_witness:
  "h_toks_ok heap0 \<and> h_toks_ok heap1 \<and>
   (\<exists>f1 f2. cmd_builder 1 ''log'' heap0 ''cat < in.txt | sort >> out.txt'' = Inr f1 \<and>
            cmd_builder 1 ''log'' heap1 ''cat < in.txt | sort >> out.txt'' = Inr f2 \<and>
            num_cmds f1 = num_cmds f2 \<and>
            (\<forall>j < nat (num_cmds f1). child_argv f1 j = child_argv f2 j) \<and>
            file_in f1 = file_in f2 \<and> file_out f1 = file_out f2 \<and>
            (file_out f1 \<noteq> Null \<longrightarrow> overwrite f1 = overwrite f2) \<and>
            execute_cmd os0 f1 0 = execute_cmd os0 f2 0) \<and>
   get_cmd 0 (Some ''ls &\<newline>'') = Inr (1, ''ls '') \<and>
   get_cmd 1 (Some ''ls &\<newline>'') = Inr (1, ''ls '')"
proof -
  have h: "h_toks_ok heap0" "h_toks_ok heap1" by (simp_all add: heap0_def heap1_def)
  have i: "isl (cmd_builder 1 ''log'' heap0 ''cat < in.txt | sort >> out.txt'') = False"
    by code_simp
  have g: "get_cmd 0 (Some ''ls &\<newline>'') = Inr (1, ''ls '')" by code_simp
  note c9 = C9_rebuild_agrees [OF h, of 1 "''log''" "''cat < in.txt | sort >> out.txt''"
              0 "Some ''ls &\<newline>''" 1 "''ls ''"]
  have "\<not> (cmd_builder 1 ''log'' heap0 ''cat < in.txt | sort >> out.txt'' = Inl Out_of_bounds)"
    using i by auto
  then show ?thesis using h g c9 by blast
qed

text \<open>
  Where the sentence of the spec fails: without an output file nothing assigns \<open>overwrite\<close>, and
  the two pipelines built from \<open>ls\<close> carry whatever their memory held.
\<close>

theorem C9_counterexample:
  "map_sum id overwrite (cmd_builder 0 ''log'' heap0 ''ls'') = Inr 9 \<and>
   map_sum id overwrite (cmd_builder 0 ''log'' heap1 ''ls'') = Inr 0"
  by code_simp

subsection \<open>C10\<close>

text \<open>
  C10. The flag \<open>bg\<close> is sticky. \<open>get_cmd\<close> sets it to 1 on a line that ends in \<open>&\<close> and
  nothing resets it: a later call of \<open>get_cmd\<close> leaves a non-zero \<open>bg\<close> non-zero, whatever
  the line. From the line ending in \<open>&\<close> on, no pass of \<open>loop\<close> calls \<open>waitpid\<close>, for
  any lines that follow.
\<close>

theorem C10_background_sticky:
  "get_cmd bg (Some (body @ [CHR ''&'', c])) = Inr (1, body) \<and>
   (bg \<noteq> 0 \<and> get_cmd bg later = Inr (bg1, line) \<longrightarrow> bg1 \<noteq> 0) \<and>
   waits (fst (loop env backup fname n bg ((body @ [CHR ''&'', c]) # rest))) = []"
proof (intro conjI impI)
  show g: "get_cmd bg (Some (body @ [CHR ''&'', c])) = Inr (1, body)"
    by (simp add: get_cmd_def butlast_append)
  show "bg1 \<noteq> 0" if "bg \<noteq> 0 \<and> get_cmd bg later = Inr (bg1, line)"
    using that get_cmd_sticky by blast
  let ?raw = "body @ [CHR ''&'', c]"
  obtain ev r where p: "loop_pass env backup fname n bg (Some ?raw) = (ev, r)"
    by (cases "loop_pass env backup fname n bg (Some ?raw)")
  have e: "loop_pass env backup fname n bg (Some ?raw) = loop_pass env backup fname n 1 (Some ?raw)"
    using g by (simp add: loop_pass_def get_cmd_def butlast_append)
  have w: "waits ev = []"
    using loop_pass_no_wait [of 1 env backup fname n "Some ?raw"] p e by simp
  show "waits (fst (loop env backup fname n bg (?raw # rest))) = []"
  proof (cases r)
    case (Inl x)
    then show ?thesis using p w by simp
  next
    case (Inr sb)
    obtain status b1 where sb: "sb = (status, b1)" by (cases sb)
    have "b1 \<noteq> 0"
      using loop_pass_no_wait [of 1 env backup fname n "Some ?raw"] p e Inr sb by simp
    then have l: "waits (fst (loop env backup fname (n + 1) b1 rest)) = []"
      by (rule loop_no_wait)
    obtain ev' r' where l': "loop env backup fname (n + 1) b1 rest = (ev', r')"
      by (cases "loop env backup fname (n + 1) b1 rest")
    show ?thesis using p w Inr sb l l' by simp
  qed
qed

theorem C10_background_sticky_witness:
  "get_cmd 0 (Some (''sleep 5 '' @ [CHR ''&'', CHR 0x0A])) = Inr (1, ''sleep 5 '') \<and>
   (1 \<noteq> (0::int) \<and> get_cmd 1 (Some ''ls\<newline>'') = Inr (1, ''ls'')) \<and>
   waits (fst (loop os0 0 ''log'' 0 0 ((''sleep 5 '' @ [CHR ''&'', CHR 0x0A]) # [''ls\<newline>'', ''quit\<newline>'']))) = [] \<and>
   forks (fst (loop os0 0 ''log'' 0 0 [''sleep 5 &\<newline>'', ''ls\<newline>'', ''quit\<newline>'']))
     = [Sys_fork 0 Inherited_in Inherited_out (Some [''sleep'', ''5'']),
        Sys_fork 0 Inherited_in Inherited_out (Some [''ls''])] \<and>
   snd (loop os0 0 ''log'' 0 0 [''sleep 5 &\<newline>'', ''ls\<newline>'', ''quit\<newline>'']) = Inr () \<and>
   waits (fst (loop os0 0 ''log'' 0 0 [''ls\<newline>'', ''quit\<newline>''])) = [Sys_waitpid 0 0]"
proof -
  have a: "get_cmd 1 (Some ''ls\<newline>'') = Inr (1, ''ls'')" by code_simp
  have b: "forks (fst (loop os0 0 ''log'' 0 0 [''sleep 5 &\<newline>'', ''ls\<newline>'', ''quit\<newline>'']))
     = [Sys_fork 0 Inherited_in Inherited_out (Some [''sleep'', ''5'']),
        Sys_fork 0 Inherited_in Inherited_out (Some [''ls''])]"
    by code_simp
  have c: "snd (loop os0 0 ''log'' 0 0 [''sleep 5 &\<newline>'', ''ls\<newline>'', ''quit\<newline>'']) = Inr ()"
    by code_simp
  have d: "waits (fst (loop os0 0 ''log'' 0 0 [''ls\<newline>'', ''quit\<newline>''])) = [Sys_waitpid 0 0]"
    by code_simp
  show ?thesis
    using C10_background_sticky [of 0 "''sleep 5 ''" "CHR 0x0A" "Some ''ls\<newline>''" 1 "''ls''" os0 0
                                    "''log''" 0 "[''ls\<newline>'', ''quit\<newline>'']"]
      a b c d
    by simp
qed


end
